theory Spec2Isabelle
  imports Main "HOL-Library.List_Lexorder"
begin

section \<open>JavaScript strings\<close>

text \<open>
  A JavaScript string is a sequence of UTF-16 code units. A code unit is modelled by its
  integer value, so that the dashes U+2014 and U+2013 of the title scan are single
  characters as they are in the source. \<open>js\<close> turns an ASCII literal into such a string.
\<close>

type_synonym jschar = int
type_synonym jsstring = "jschar list"

definition js :: "string \<Rightarrow> jsstring" where
  "js s = map of_char s"

text \<open>White space and line terminators of ECMAScript: the class \<open>\s\<close> and what \<open>trim\<close> strips.\<close>

definition is_space :: "jschar \<Rightarrow> bool" where
  "is_space x =
     (x \<in> set [9, 10, 11, 12, 13, 32, 160, 5760, 8232, 8233, 8239, 8287, 12288, 65279]
      \<or> (8192 \<le> x \<and> x \<le> 8202))"

definition is_digit :: "jschar \<Rightarrow> bool" where
  "is_digit x = (48 \<le> x \<and> x \<le> 57)"

definition is_line_terminator :: "jschar \<Rightarrow> bool" where
  "is_line_terminator x = (x \<in> set [10, 13, 8232, 8233])"

definition trim :: "jsstring \<Rightarrow> jsstring" where
  "trim s = rev (dropWhile is_space (rev (dropWhile is_space s)))"

text \<open>\<open>s.includes(sub)\<close>\<close>

fun js_includes :: "jsstring \<Rightarrow> jsstring \<Rightarrow> bool" where
  "js_includes sub [] = (sub = [])"
| "js_includes sub (x # xs) = (take (length sub) (x # xs) = sub \<or> js_includes sub xs)"

text \<open>\<open>s.split("\n")\<close> for a one-character separator, and \<open>parts.join(sep)\<close>.\<close>

fun split :: "jschar \<Rightarrow> jsstring \<Rightarrow> jsstring list" where
  "split c [] = [[]]"
| "split c (x # xs) =
     (if x = c then [] # split c xs
      else (case split c xs of [] \<Rightarrow> [[x]] | h # t \<Rightarrow> (x # h) # t))"

fun join :: "jsstring \<Rightarrow> jsstring list \<Rightarrow> jsstring" where
  "join sep [] = []"
| "join sep [x] = x"
| "join sep (x # y # ys) = x @ sep @ join sep (y # ys)"

section \<open>Regular expressions\<close>

text \<open>
  The patterns of the source are written in a small syntax of regular expressions and run
  by a backtracking matcher in the order of ECMAScript: \<open>backtrack r (s, c)\<close> lists, first
  choice first, every way \<open>r\<close> can match a prefix of \<open>s\<close>, as the rest of the input and
  the captures. Greedy \<open>?\<close> and \<open>*\<close> try the longer match first, lazy \<open>*?\<close> the
  shorter; an iteration that consumes nothing is rejected, as in the RepeatMatcher of the
  language definition. The first element of the list is the match the engine returns.
\<close>

datatype rx =
    Sym "jschar \<Rightarrow> bool"
  | Cat rx rx
  | Opt rx
  | Star rx
  | LazyStar rx
  | Group nat rx

type_synonym caps = "(nat \<times> jsstring) list"
type_synonym mstate = "jsstring \<times> caps"

function backtrack :: "rx \<Rightarrow> mstate \<Rightarrow> mstate list" where
  "backtrack (Sym p) st =
     (case fst st of [] \<Rightarrow> [] | x # t \<Rightarrow> if p x then [(t, snd st)] else [])"
| "backtrack (Cat r1 r2) st = concat (map (backtrack r2) (backtrack r1 st))"
| "backtrack (Opt r) st =
     filter (\<lambda>u. length (fst u) < length (fst st)) (backtrack r st) @ [st]"
| "backtrack (Star r) st =
     concat (map (backtrack (Star r))
       (filter (\<lambda>u. length (fst u) < length (fst st)) (backtrack r st))) @ [st]"
| "backtrack (LazyStar r) st =
     st # concat (map (backtrack (LazyStar r))
       (filter (\<lambda>u. length (fst u) < length (fst st)) (backtrack r st)))"
| "backtrack (Group n r) st =
     map (\<lambda>u. (fst u, (n, take (length (fst st) - length (fst u)) (fst st)) # snd u))
       (backtrack r st)"
  by pat_completeness auto
termination
  by (relation "inv_image (less_than <*lex*> less_than) (\<lambda>(r, st). (size r, length (fst st)))")
     auto

abbreviation Plus :: "rx \<Rightarrow> rx" where
  "Plus r \<equiv> Cat r (Star r)"

abbreviation LazyPlus :: "rx \<Rightarrow> rx" where
  "LazyPlus r \<equiv> Cat r (LazyStar r)"

definition chr :: "jschar \<Rightarrow> rx" where
  "chr c = Sym (\<lambda>x. x = c)"

text \<open>
  Under the flag \<open>i\<close> a pattern character matches the code units with the same
  canonical form. The patterns here hold ASCII characters only, and a code unit above
  127 is never canonicalised to an ASCII one, so the ASCII letters are all that fold.
\<close>

definition canonicalize :: "jschar \<Rightarrow> jschar" where
  "canonicalize x = (if 97 \<le> x \<and> x \<le> 122 then x - 32 else x)"

definition chr_i :: "jschar \<Rightarrow> rx" where
  "chr_i c = Sym (\<lambda>x. canonicalize x = canonicalize c)"

fun lit :: "jsstring \<Rightarrow> rx \<Rightarrow> rx" where
  "lit [] r = r"
| "lit (c # cs) r = Cat (chr c) (lit cs r)"

fun lit_i :: "jsstring \<Rightarrow> rx \<Rightarrow> rx" where
  "lit_i [] r = r"
| "lit_i (c # cs) r = Cat (chr_i c) (lit_i cs r)"

definition dot :: rx where
  "dot = Sym (\<lambda>x. \<not> is_line_terminator x)"

record rmatch =
  m_index :: nat
  m_end :: nat
  m_text :: jsstring
  m_groups :: caps

text \<open>\<open>scan r t i\<close>: the first match at or after position \<open>i\<close>, where \<open>t\<close> is the input from \<open>i\<close> on.\<close>

fun scan :: "rx \<Rightarrow> jsstring \<Rightarrow> nat \<Rightarrow> rmatch option" where
  "scan r [] i =
     (case backtrack r ([], []) of
        [] \<Rightarrow> None
      | u # _ \<Rightarrow> Some \<lparr>m_index = i, m_end = i, m_text = [], m_groups = snd u\<rparr>)"
| "scan r (x # t) i =
     (case backtrack r (x # t, []) of
        [] \<Rightarrow> scan r t (Suc i)
      | u # _ \<Rightarrow>
          Some \<lparr>m_index = i, m_end = i + (length (x # t) - length (fst u)),
                m_text = take (length (x # t) - length (fst u)) (x # t), m_groups = snd u\<rparr>)"

text \<open>
  \<open>RegExpBuiltinExec\<close> of a global pattern started at \<open>lastIndex\<close>, and \<open>test\<close>, which
  returns the new \<open>lastIndex\<close> as well: the end of the match, or 0 when there is none.
\<close>

definition regexp_exec :: "rx \<Rightarrow> jsstring \<Rightarrow> nat \<Rightarrow> rmatch option" where
  "regexp_exec r s lastIndex =
     (if lastIndex > length s then None else scan r (drop lastIndex s) lastIndex)"

definition regexp_test :: "rx \<Rightarrow> jsstring \<Rightarrow> nat \<Rightarrow> bool \<times> nat" where
  "regexp_test r s lastIndex =
     (case regexp_exec r s lastIndex of None \<Rightarrow> (False, 0) | Some m \<Rightarrow> (True, m_end m))"

text \<open>
  All matches from position \<open>i\<close> on, as \<open>match\<close>, \<open>matchAll\<close> and \<open>replace\<close> collect them
  for a global pattern: after an empty match the scan moves one position on.
\<close>

function match_from :: "rx \<Rightarrow> jsstring \<Rightarrow> nat \<Rightarrow> rmatch list" where
  "match_from r s i =
     (case regexp_exec r s i of
        None \<Rightarrow> []
      | Some m \<Rightarrow>
          m # match_from r s (if m_end m = m_index m then Suc (m_end m) else m_end m))"
  by pat_completeness auto
termination
proof (relation "measure (\<lambda>(r, s, i). Suc (length s) - i)")
  show "wf (measure (\<lambda>(r, s, i). Suc (length s) - i))"
    by simp
next
  fix r :: rx and s :: jsstring and i :: nat and m :: rmatch
  assume ex: "regexp_exec r s i = Some m"
  have bounds: "j \<le> m_index m' \<and> m_index m' \<le> m_end m'" if "scan r t j = Some m'" for t j m'
    using that
  proof (induction t arbitrary: j)
    case Nil
    then show ?case by (auto split: list.splits)
  next
    case (Cons x t)
    show ?case
    proof (cases "backtrack r (x # t, [])")
      case Nil
      with Cons.prems have "scan r t (Suc j) = Some m'" by simp
      from Cons.IH [OF this] show ?thesis by simp
    next
      case (Cons u us)
      with Cons.prems show ?thesis by auto
    qed
  qed
  from ex have le: "i \<le> length s" and sc: "scan r (drop i s) i = Some m"
    by (auto simp: regexp_exec_def split: if_splits)
  from bounds [OF sc] have "i < (if m_end m = m_index m then Suc (m_end m) else m_end m)"
    by auto
  with le show "((r, s, if m_end m = m_index m then Suc (m_end m) else m_end m), r, s, i)
      \<in> measure (\<lambda>(r, s, i). Suc (length s) - i)"
    by auto
qed

text \<open>\<open>s.replace(r, "")\<close> for a global pattern: the input without its matches.\<close>

fun splice_out :: "jsstring \<Rightarrow> nat \<Rightarrow> rmatch list \<Rightarrow> jsstring" where
  "splice_out s p [] = drop p s"
| "splice_out s p (m # ms) =
     (if p \<le> m_index m then take (m_index m - p) (drop p s) @ splice_out s (m_end m) ms
      else splice_out s p ms)"

definition replace_all :: "rx \<Rightarrow> jsstring \<Rightarrow> jsstring" where
  "replace_all r s = splice_out s 0 (match_from r s 0)"

definition group :: "nat \<Rightarrow> rmatch \<Rightarrow> jsstring" where
  "group n m = (case map_of (m_groups m) n of None \<Rightarrow> [] | Some g \<Rightarrow> g)"

text \<open>\<^verbatim>\<open>const UPDATE_REGEX = /\[UPDATE(?:\s*\d*)?(?::\s*(.+?))?\]/gi;\<close>\<close>

definition UPDATE_REGEX :: rx where
  "UPDATE_REGEX =
     Cat (chr_i 91) (lit_i (js ''UPDATE'')
       (Cat (Opt (Cat (Star (Sym is_space)) (Star (Sym is_digit))))
         (Cat (Opt (Cat (chr_i 58) (Cat (Star (Sym is_space)) (Group 1 (LazyPlus dot)))))
           (chr_i 93))))"

text \<open>\<^verbatim>\<open>const urlRegex = /forum\/(\d+)\/(\d+)/g;\<close> (without \<open>g\<close> in the title-based job)\<close>

definition urlRegex :: rx where
  "urlRegex =
     lit (js ''forum/'')
       (Cat (Group 1 (Plus (Sym is_digit))) (Cat (chr 47) (Group 2 (Plus (Sym is_digit)))))"

text \<open>\<^verbatim>\<open>/\[UPDATE.*\][ ]*/g\<close>, the pattern removed from every serialised fragment\<close>

definition marker_literal_regex :: rx where
  "marker_literal_regex = lit (js ''[UPDATE'') (Cat (Star dot) (Cat (chr 93) (Star (chr 32))))"

text \<open>\<^verbatim>\<open>/\[.*?\]/g\<close>, the bracketed tags removed from the activity preview\<close>

definition bbcode_tag_regex :: rx where
  "bbcode_tag_regex = Cat (chr 91) (Cat (LazyStar dot) (chr 93))"

section \<open>The parsed content body\<close>

text \<open>
  The tree that cheerio builds from \<open>nextPost.fulltext\<close>: elements with a tag name,
  attributes and child nodes, text nodes and comments. \<open>$(el).text()\<close> is the text of
  all text nodes below \<open>el\<close>; \<open>$(el).children()\<close> are its child elements.
\<close>

datatype node =
    Element jsstring "(jsstring \<times> jsstring) list" "node list"
  | TextNode jsstring
  | Comment jsstring

fun text_of :: "node \<Rightarrow> jsstring" where
  "text_of (Element tag attrs kids) = concat (map text_of kids)"
| "text_of (TextNode s) = s"
| "text_of (Comment s) = []"

fun is_element :: "node \<Rightarrow> bool" where
  "is_element (Element tag attrs kids) = True"
| "is_element (TextNode s) = False"
| "is_element (Comment s) = False"

section \<open>HTML Segmenter\<close>

text \<open>
  \<open>UPDATE_REGEX\<close> is one global object with the flag \<open>g\<close>: every \<open>test\<close> starts at
  its \<open>lastIndex\<close> and leaves a new one. The functions that call \<open>test\<close> therefore take
  the \<open>lastIndex\<close> they find and return the one they leave.

  \<open>unrollElements\<close> is the source function; \<open>unrollChildren\<close> is its loop
  \<^verbatim>\<open>for (const child of children) unrolledElements.push(...unrollElements(child, $))\<close>
  over the child elements of a node list, and also
  \<^verbatim>\<open>elements.map((el) => unrollElements(el, $)).flat()\<close> over the children of the root.
\<close>

fun unrollElements :: "node \<Rightarrow> nat \<Rightarrow> node list \<times> nat"
  and unrollChildren :: "node list \<Rightarrow> nat \<Rightarrow> node list \<times> nat" where
  "unrollElements (Element tag attrs kids) lastIndex =
     (case regexp_test UPDATE_REGEX (text_of (Element tag attrs kids)) lastIndex of
        (hasUpdate, lastIndex') \<Rightarrow>
          if tag \<noteq> js ''div'' \<or> \<not> hasUpdate then ([Element tag attrs kids], lastIndex')
          else unrollChildren kids lastIndex')"
| "unrollElements (TextNode s) lastIndex =
     (case regexp_test UPDATE_REGEX s lastIndex of
        (hasUpdate, lastIndex') \<Rightarrow> ([TextNode s], lastIndex'))"
| "unrollElements (Comment s) lastIndex =
     (case regexp_test UPDATE_REGEX [] lastIndex of
        (hasUpdate, lastIndex') \<Rightarrow> ([Comment s], lastIndex'))"
| "unrollChildren [] lastIndex = ([], lastIndex)"
| "unrollChildren (k # ks) lastIndex =
     (if is_element k then
        (case unrollElements k lastIndex of
           (unrolled, lastIndex') \<Rightarrow>
             (case unrollChildren ks lastIndex' of
                (rest, lastIndex'') \<Rightarrow> (unrolled @ rest, lastIndex'')))
      else unrollChildren ks lastIndex)"

text \<open>\<^verbatim>\<open>texts.findIndex((text) => UPDATE_REGEX.test(text))\<close>; \<open>None\<close> is the result -1.\<close>

fun findIndex_test :: "jsstring list \<Rightarrow> nat \<Rightarrow> nat \<Rightarrow> nat option \<times> nat" where
  "findIndex_test [] i lastIndex = (None, lastIndex)"
| "findIndex_test (t # ts) i lastIndex =
     (case regexp_test UPDATE_REGEX t lastIndex of
        (found, lastIndex') \<Rightarrow>
          if found then (Some i, lastIndex') else findIndex_test ts (Suc i) lastIndex')"

text \<open>
  \<^verbatim>\<open>const updateIndexReverse = [...unrolledElements].reverse().map((el) => $(el).text())
      .findIndex((text) => UPDATE_REGEX.test(text));\<close>
  and the \<open>updateElements\<close> built from it.
\<close>

definition updateElements_of :: "node list \<Rightarrow> nat \<Rightarrow> node list \<times> nat" where
  "updateElements_of unrolledElements lastIndex =
     (case findIndex_test (map text_of (rev unrolledElements)) 0 lastIndex of
        (None, lastIndex') \<Rightarrow> (unrolledElements, lastIndex')
      | (Some updateIndexReverse, lastIndex') \<Rightarrow>
          (drop (length unrolledElements - updateIndexReverse - 1) unrolledElements,
           lastIndex'))"

text \<open>The update segment of a parsed body: unroll the children of the root, then cut.\<close>

definition update_segment :: "node list \<Rightarrow> nat \<Rightarrow> node list \<times> nat" where
  "update_segment root lastIndex =
     (case unrollChildren root lastIndex of
        (unrolledElements, lastIndex') \<Rightarrow> updateElements_of unrolledElements lastIndex')"

text \<open>
  \<^verbatim>\<open>const updateTitle = $(updateElements[0]).text().match(UPDATE_REGEX)?.[0];\<close>
  \<open>match\<close> with a global pattern starts at 0 whatever \<open>lastIndex\<close> was, returns every
  match (or null when there is none) and leaves \<open>lastIndex\<close> at 0. The text of
  \<open>$(undefined)\<close>, for an empty \<open>updateElements\<close>, is the empty string.
\<close>

definition first_text :: "node list \<Rightarrow> jsstring" where
  "first_text updateElements = (case updateElements of [] \<Rightarrow> [] | el # _ \<Rightarrow> text_of el)"

definition updateTitle_of :: "jsstring \<Rightarrow> jsstring option" where
  "updateTitle_of text =
     (case match_from UPDATE_REGEX text 0 of [] \<Rightarrow> None | m # _ \<Rightarrow> Some (m_text m))"

text \<open>
  The loop over the reversed marker. The delimiters are \<open>-\<close>, \<open>:\<close>, \<open>[\<close>, the em dash
  U+2014 and the en dash U+2013; \<open>]\<close> is skipped. (\<open>for ... of\<close> walks code points,
  but no delimiter is a surrogate and \<open>+=\<close> appends whole code points, so the string
  built is the same code unit by code unit.)
\<close>

fun title_loop :: "jsstring \<Rightarrow> jsstring \<Rightarrow> jsstring" where
  "title_loop [] strippedTitle = strippedTitle"
| "title_loop (char # rest) strippedTitle =
     (if char \<in> set [45, 58, 91, 8212, 8211] then strippedTitle
      else if char \<in> set [93] then title_loop rest strippedTitle
      else title_loop rest (strippedTitle @ [char]))"

definition strippedTitle_of :: "jsstring option \<Rightarrow> jsstring" where
  "strippedTitle_of updateTitle =
     (case updateTitle of
        None \<Rightarrow> []
      | Some t \<Rightarrow> if t = [] then [] else title_loop (rev t) [])"

text \<open>\<^verbatim>\<open>strippedTitle.split("").reverse().join("") || nextPost.title.trim()\<close>\<close>

definition finalTitle_of :: "jsstring \<Rightarrow> jsstring \<Rightarrow> jsstring" where
  "finalTitle_of strippedTitle title =
     (if rev strippedTitle \<noteq> [] then rev strippedTitle else trim title)"

text \<open>
  The title extracted from the text of the first fragment: the match, the scan and the
  reversal, before the fallback \<open>||\<close> is applied.
\<close>

definition extracted_title :: "jsstring \<Rightarrow> jsstring" where
  "extracted_title text = rev (strippedTitle_of (updateTitle_of text))"

section \<open>Thread target\<close>

text \<open>
  \<^verbatim>\<open>const urlMatch: any = Array.from(nextPost.fulltext.matchAll(urlRegex)).pop();\<close>
  in the job that runs from the stored creation date, and
  \<^verbatim>\<open>const urlMatch = nextPost.fulltext.match(urlRegex);\<close>
  with the pattern without \<open>g\<close> in the job that runs from the last posted title.
  The result is \<open>(categoryId, threadId)\<close>, the two groups of the match.
\<close>

definition urlMatch :: "jsstring \<Rightarrow> (jsstring \<times> jsstring) option" where
  "urlMatch fulltext =
     (case match_from urlRegex fulltext 0 of
        [] \<Rightarrow> None
      | m # ms \<Rightarrow> Some (group 1 (last (m # ms)), group 2 (last (m # ms))))"

definition urlMatch_by_title :: "jsstring \<Rightarrow> (jsstring \<times> jsstring) option" where
  "urlMatch_by_title fulltext =
     (case regexp_exec urlRegex fulltext 0 of
        None \<Rightarrow> None
      | Some m \<Rightarrow> Some (group 1 m, group 2 m))"

section \<open>Post Composer\<close>

text \<open>
  The callback of \<^verbatim>\<open>.filter((el, index) => ...)\<close> with its flag \<open>foundForumTopic\<close>,
  run over the serialised fragments from \<open>index\<close> on. \<open>n\<close> is \<open>updateElements.length\<close>
  and \<open>text_of_markup el\<close> is \<open>$(el).text()\<close> for the string \<open>el\<close>. The indices are
  compared as JavaScript numbers, so \<open>n - 2\<close> is -1 for one fragment.
\<close>

fun forum_topic_filter ::
  "(jsstring \<Rightarrow> jsstring) \<Rightarrow> nat \<Rightarrow> bool \<Rightarrow> nat \<Rightarrow> jsstring list \<Rightarrow> jsstring list" where
  "forum_topic_filter text_of_markup n foundForumTopic index [] = []"
| "forum_topic_filter text_of_markup n foundForumTopic index (el # els) =
     (if foundForumTopic then forum_topic_filter text_of_markup n foundForumTopic (Suc index) els
      else if int index = int n - 1 \<or> int index = int n - 2 then
        (if \<not> js_includes (js ''forum topic'') (text_of_markup el) then [el] else [])
          @ forum_topic_filter text_of_markup n True (Suc index) els
      else el # forum_topic_filter text_of_markup n foundForumTopic (Suc index) els)"

section \<open>Rows, statements and the world of one run\<close>

text \<open>
  A \<open>Date\<close> of JavaScript is an instant in milliseconds, or invalid. \<open>Number(x)\<close> of a
  string (or of an unset environment variable) is kept as the term it is: the driver
  receives that number, and nothing here computes with it.
\<close>

datatype jsdate = InvalidDate | Date int

datatype jsnumber = Number "jsstring option"

record content_row =
  c_id :: int
  c_title :: jsstring
  c_fulltext :: jsstring
  c_created :: jsdate

record topic_row =
  t_subject :: jsstring
  t_first_post_id :: int

record media_row =
  rel_path :: jsstring
  filename :: jsstring
  file_extension :: jsstring

record text_row =
  mesid :: int
  message_text :: jsstring

record header =
  affectedRows :: nat
  insertId :: int

text \<open>The seven statements of \<open>insertMessage\<close>, each with the values bound to it.\<close>

datatype statement =
    InsertMessage int jsnumber jsnumber jsstring jsnumber "jsstring option" int jsstring
  | InsertMessageText int jsstring
  | UpdateUserPosts jsnumber
  | UpdateTopic int int jsnumber "jsstring option" jsnumber
  | UpdateCategory int int jsnumber
  | InsertActivity jsnumber jsstring jsstring jsnumber int
  | UpdateActivityLikeId int

text \<open>The messages of the \<open>throw new Error(...)\<close> inside \<open>insertMessage\<close>.\<close>

datatype write_error =
    MessageInsertFailed
  | MessageTextInsertFailed
  | UserPostCountUpdateFailed
  | TopicMetadataUpdateFailed
  | CategoryMetadataUpdateFailed
  | CommunityActivityInsertFailed
  | CommunityActivityLikeIdUpdateFailed

text \<open>What the logger and the console receive, one constructor for each call in the source.\<close>

datatype log_entry =
    Info_QuerySuccessful
  | Error_Querying
  | Error_Thrown
  | Error_UserIdNotSet
  | Error_UserNameNotSet
  | Error_ConnectFailed
  | Info_NoLastCreated
  | Info_RecursionDepth nat
  | Info_MaxRecursion
  | Info_NoNextPost
  | Console_NextPost int jsdate jsstring
  | Info_SkipNoUrl
  | Info_SkipNoSubjectAndParent
  | Info_SkipNoImage
  | Info_AlreadyPosted
  | Info_Inserted int
  | Error_TransactionFailed write_error
  | Error_InvalidDate
  | Info_PostedAt jsstring jsstring
  | Info_Disconnected

text \<open>
  Everything the program takes from outside. The database answers a query on its tables
  \<open>'t\<close> with rows, or with nothing when the driver rejects the query (the \<open>catch\<close> of
  \<open>queryDatabase\<close>); a statement answers with a result header and the tables it leaves.
  The four \<open>SELECT\<close>s are those of \<open>getNextPost\<close>, \<open>getSubjectAndParent\<close>,
  \<open>getImage\<close> and \<open>hasBeenPosted\<close>. cheerio parses and serialises, html2bbcode
  converts, date-fns-tz formats a valid instant as \<open>yyyy-MM-dd HH:mm:ss\<close> in Europe/Athens.
\<close>

record 't env =
  USER_ID :: "jsstring option"
  USER_NAME :: "jsstring option"
  connects :: bool
  now :: int
  select_next_post :: "'t \<Rightarrow> jsstring \<Rightarrow> content_row list option"
  select_subject_parent :: "'t \<Rightarrow> jsstring \<Rightarrow> jsstring \<Rightarrow> topic_row list option"
  select_image :: "'t \<Rightarrow> int \<Rightarrow> media_row list option"
  select_posted :: "'t \<Rightarrow> jsnumber \<Rightarrow> jsstring \<Rightarrow> text_row list option"
  execute :: "statement \<Rightarrow> 't \<Rightarrow> header option \<times> 't"
  cheerio_load :: "jsstring \<Rightarrow> node list"
  cheerio_html :: "node \<Rightarrow> jsstring"
  cheerio_text :: "jsstring \<Rightarrow> jsstring"
  converter_feed :: "jsstring \<Rightarrow> jsstring"
  format_athens :: "int \<Rightarrow> jsstring"
  number_toString :: "jsnumber \<Rightarrow> jsstring"

text \<open>
  The state a run changes: the tables every connection sees, the working copy of the
  open transaction, the file \<open>last_created.txt\<close> with the list of the values written
  to it, \<open>UPDATE_REGEX.lastIndex\<close>, and the log.
\<close>

record 't world =
  tables :: 't
  transaction :: "'t option"
  last_created_txt :: "jsstring option"
  writeFile_calls :: "jsstring list"
  lastIndex :: nat
  logged :: "log_entry list"

definition logger :: "log_entry \<Rightarrow> 't world \<Rightarrow> 't world" where
  "logger e w = w\<lparr>logged := logged w @ [e]\<rparr>"

subsection \<open>The connection\<close>

text \<open>
  Modelled from the spec: the transaction primitive of the connection (mysql2, not part
  of the repository). \<open>beginTransaction\<close> opens a working copy of the tables, statements
  and queries run on it, \<open>commit\<close> publishes it and \<open>rollback\<close> drops it. Without an
  open transaction a statement changes the tables at once.
\<close>

definition view :: "'t world \<Rightarrow> 't" where
  "view w = (case transaction w of None \<Rightarrow> tables w | Some t \<Rightarrow> t)"

definition set_view :: "'t \<Rightarrow> 't world \<Rightarrow> 't world" where
  "set_view t w = (case transaction w of None \<Rightarrow> w\<lparr>tables := t\<rparr> | Some _ \<Rightarrow> w\<lparr>transaction := Some t\<rparr>)"

definition beginTransaction :: "'t world \<Rightarrow> 't world" where
  "beginTransaction w = w\<lparr>transaction := Some (view w)\<rparr>"

definition commit :: "'t world \<Rightarrow> 't world" where
  "commit w = (case transaction w of None \<Rightarrow> w | Some t \<Rightarrow> w\<lparr>tables := t, transaction := None\<rparr>)"

definition rollback :: "'t world \<Rightarrow> 't world" where
  "rollback w = w\<lparr>transaction := None\<rparr>"

subsection \<open>\<open>queryDatabase\<close>\<close>

text \<open>
  \<^verbatim>\<open>try { const [rows] = await connection.query(query, values); logger.info(...); return rows; }
  catch (error) { logger.error(...); logger.error(error); }\<close>
  once for the queries that return rows and once for the statements that return a header.
\<close>

definition queryDatabase :: "('t \<Rightarrow> 'r list option) \<Rightarrow> 't world \<Rightarrow> 'r list option \<times> 't world" where
  "queryDatabase query w =
     (case query (view w) of
        Some rows \<Rightarrow> (Some rows, logger Info_QuerySuccessful w)
      | None \<Rightarrow> (None, logger Error_Thrown (logger Error_Querying w)))"

definition queryDatabase_header :: "'t env \<Rightarrow> statement \<Rightarrow> 't world \<Rightarrow> header option \<times> 't world" where
  "queryDatabase_header env stmt w =
     (case execute env stmt (view w) of
        (Some res, t) \<Rightarrow> (Some res, logger Info_QuerySuccessful (set_view t w))
      | (None, t) \<Rightarrow> (None, logger Error_Thrown (logger Error_Querying (set_view t w))))"

subsection \<open>The watermark file (\<open>utils.ts\<close>)\<close>

definition getLastProcessedDate :: "'t world \<Rightarrow> jsstring option" where
  "getLastProcessedDate w = (case last_created_txt w of None \<Rightarrow> None | Some created \<Rightarrow> Some (trim created))"

text \<open>
  \<open>formatDate\<close>: date-fns throws a \<open>RangeError\<close> for an invalid date, which is the
  result \<open>None\<close>.
\<close>

definition formatDate :: "'t env \<Rightarrow> jsdate \<Rightarrow> jsstring option" where
  "formatDate env dateStr = (case dateStr of InvalidDate \<Rightarrow> None | Date t \<Rightarrow> Some (format_athens env t))"

definition writeFile :: "jsstring \<Rightarrow> 't world \<Rightarrow> 't world" where
  "writeFile formatted w =
     w\<lparr>last_created_txt := Some formatted, writeFile_calls := writeFile_calls w @ [formatted]\<rparr>"

definition setLastProcessedDate :: "'t env \<Rightarrow> jsdate \<Rightarrow> 't world \<Rightarrow> 't world" where
  "setLastProcessedDate env created w =
     (case created of
        InvalidDate \<Rightarrow> logger Error_InvalidDate w
      | Date t \<Rightarrow> writeFile (format_athens env t) w)"

section \<open>Transactional Writer\<close>

record message_data =
  parentId :: int
  threadId :: jsnumber
  categoryId :: jsnumber
  subject :: jsstring
  message :: jsstring
  userId :: jsnumber
  name :: "jsstring option"
  created :: jsdate
  imageURL :: jsstring

text \<open>
  One statement of the writer with its check:
  \<^verbatim>\<open>const res = await queryDatabase(...); if (!res || res.affectedRows === 0) throw new Error(...)\<close>.
  \<open>Inl\<close> is the throw, with the world at that moment.
\<close>

definition step ::
  "'t env \<Rightarrow> statement \<Rightarrow> write_error \<Rightarrow> 't world \<Rightarrow> (write_error \<times> 't world) + (header \<times> 't world)" where
  "step env stmt err w =
     (case queryDatabase_header env stmt w of
        (None, w') \<Rightarrow> Inl (err, w')
      | (Some res, w') \<Rightarrow> if affectedRows res = 0 then Inl (err, w') else Inr (res, w'))"

text \<open>The decimal digits of the \<open>insertId\<close> in a template string.\<close>

function decimal :: "nat \<Rightarrow> jsstring" where
  "decimal n = (if n < 10 then [48 + int n] else decimal (n div 10) @ [48 + int (n mod 10)])"
  by pat_completeness auto
termination
  by (relation "measure id") auto

definition int_toString :: "int \<Rightarrow> jsstring" where
  "int_toString i = (if i < 0 then 45 # decimal (nat (- i)) else decimal (nat i))"

definition activityTitle :: "'t env \<Rightarrow> message_data \<Rightarrow> jsstring" where
  "activityTitle env data =
     js ''{single}{actor}{/single}{multiple}{actors}{/multiple} replied to the topic '' @ [39]
     @ js ''<a href='' @ [34] @ js ''/forum/'' @ number_toString env (categoryId data) @ js ''/''
     @ number_toString env (threadId data) @ [34] @ js ''>'' @ subject data @ js ''</a>'' @ [39]
     @ js '' in the forum.''"

definition activityContent :: "'t env \<Rightarrow> message_data \<Rightarrow> int \<Rightarrow> jsstring" where
  "activityContent env data messageId =
     (let strippedMessage = trim (replace_all bbcode_tag_regex (message data));
          previewText = take 300 strippedMessage;
          readMoreUrl = js ''/forum/'' @ number_toString env (categoryId data) @ js ''/''
            @ number_toString env (threadId data) @ js ''/'' @ int_toString messageId;
          imageTag = js ''<a href='' @ [34] @ imageURL data @ [34] @ js '' rel='' @ [34]
            @ js ''nofollow'' @ [34] @ js '' target='' @ [34] @ js ''_blank'' @ [34] @ js ''>''
            @ imageURL data @ js ''</a><br><br>''
      in trim
        ([10] @ js ''      <div class='' @ [34] @ js ''bbcode_center'' @ [34] @ js '' style='' @ [34]
          @ js ''text-align:center;'' @ [34] @ js ''>'' @ [10]
          @ js ''        <b>'' @ subject data @ js ''</b>'' @ [10]
          @ js ''      </div>'' @ [10]
          @ js ''      <br>'' @ [10]
          @ js ''      '' @ imageTag @ [10]
          @ js ''      '' @ previewText @ [10]
          @ js ''      <br>'' @ [10]
          @ js ''      <br>'' @ [10]
          @ js ''      <a rel='' @ [34] @ js ''nofollow'' @ [34] @ js '' href='' @ [34] @ readMoreUrl
          @ [34] @ js '' class='' @ [34] @ js ''small profile-newsfeed-item-action'' @ [34]
          @ js ''>Read More...</a>'' @ [10]
          @ js ''    ''))"

text \<open>
  The body of the \<open>try\<close> up to the last check: \<open>beginTransaction\<close> and the seven
  statements. \<open>Inl\<close> is the first throw; \<open>Inr\<close> carries \<open>messageId\<close>.
\<close>

definition insertMessage_statements ::
  "'t env \<Rightarrow> message_data \<Rightarrow> 't world \<Rightarrow> (write_error \<times> 't world) + (int \<times> 't world)" where
  "insertMessage_statements env data w =
     (let timestamp = now env div 1000 in
      case step env
             (InsertMessage (parentId data) (threadId data) (categoryId data) (subject data)
                (userId data) (name data) timestamp (js ''162.158.210.219''))
             MessageInsertFailed (beginTransaction w) of
        Inl thrown \<Rightarrow> Inl thrown
      | Inr (res, w1) \<Rightarrow>
     (let messageId = insertId res in
      case step env (InsertMessageText messageId (message data)) MessageTextInsertFailed w1 of
        Inl thrown \<Rightarrow> Inl thrown
      | Inr (res2, w2) \<Rightarrow>
     (case step env (UpdateUserPosts (userId data)) UserPostCountUpdateFailed w2 of
        Inl thrown \<Rightarrow> Inl thrown
      | Inr (res3, w3) \<Rightarrow>
     (case step env (UpdateTopic messageId timestamp (userId data) (name data) (threadId data))
             TopicMetadataUpdateFailed w3 of
        Inl thrown \<Rightarrow> Inl thrown
      | Inr (res4, w4) \<Rightarrow>
     (case step env (UpdateCategory messageId timestamp (categoryId data))
             CategoryMetadataUpdateFailed w4 of
        Inl thrown \<Rightarrow> Inl thrown
      | Inr (res5, w5) \<Rightarrow>
     (case step env
             (InsertActivity (userId data) (activityTitle env data)
                (activityContent env data messageId) (threadId data) timestamp)
             CommunityActivityInsertFailed w5 of
        Inl thrown \<Rightarrow> Inl thrown
      | Inr (res6, w6) \<Rightarrow>
     (let activityId = insertId res6 in
      case step env (UpdateActivityLikeId activityId) CommunityActivityLikeIdUpdateFailed w6 of
        Inl thrown \<Rightarrow> Inl thrown
      | Inr (res7, w7) \<Rightarrow> Inr (messageId, w7))))))))"

text \<open>
  \<open>insertMessage\<close>: after the statements \<open>commit\<close>, \<open>setLastProcessedDate\<close> and the
  log line; in the \<open>catch\<close>, \<open>rollback\<close> and the error line. The result tells which of
  the two ends was taken (the source returns nothing).
\<close>

definition insertMessage :: "'t env \<Rightarrow> message_data \<Rightarrow> 't world \<Rightarrow> write_error option \<times> 't world" where
  "insertMessage env data w =
     (case insertMessage_statements env data w of
        Inr (messageId, w') \<Rightarrow>
          (None, logger (Info_Inserted messageId) (setLastProcessedDate env (created data) (commit w')))
      | Inl (err, w') \<Rightarrow> (Some err, logger (Error_TransactionFailed err) (rollback w')))"

section \<open>Repository queries and the Duplicate Guard\<close>

definition getNextPost :: "'t env \<Rightarrow> jsstring \<Rightarrow> 't world \<Rightarrow> content_row option \<times> 't world" where
  "getNextPost env created_after w =
     (case queryDatabase (\<lambda>t. select_next_post env t created_after) w of
        (None, w') \<Rightarrow> (None, w')
      | (Some [], w') \<Rightarrow> (None, w')
      | (Some (row # _), w') \<Rightarrow> (Some row, w'))"

definition getSubjectAndParent ::
  "'t env \<Rightarrow> jsstring \<Rightarrow> jsstring \<Rightarrow> 't world \<Rightarrow> topic_row option \<times> 't world" where
  "getSubjectAndParent env category thread w =
     (case queryDatabase (\<lambda>t. select_subject_parent env t category thread) w of
        (None, w') \<Rightarrow> (None, w')
      | (Some [], w') \<Rightarrow> (None, w')
      | (Some (row # _), w') \<Rightarrow> (Some row, w'))"

definition getImage :: "'t env \<Rightarrow> int \<Rightarrow> 't world \<Rightarrow> jsstring option \<times> 't world" where
  "getImage env listingId w =
     (case queryDatabase (\<lambda>t. select_image env t listingId) w of
        (None, w') \<Rightarrow> (None, w')
      | (Some [], w') \<Rightarrow> (None, w')
      | (Some (imageObj # _), w') \<Rightarrow>
          (Some (js ''https://gameworld.gr/media/reviews/photos/'' @ rel_path imageObj
                 @ filename imageObj @ js ''.'' @ file_extension imageObj), w'))"

definition hasBeenPosted :: "'t env \<Rightarrow> jsstring \<Rightarrow> 't world \<Rightarrow> bool \<times> 't world" where
  "hasBeenPosted env msg w =
     (case queryDatabase (\<lambda>t. select_posted env t (Number (USER_ID env)) msg) w of
        (None, w') \<Rightarrow> (False, w')
      | (Some [], w') \<Rightarrow> (False, w')
      | (Some (_ # _), w') \<Rightarrow> (True, w'))"

section \<open>Post Pipeline Orchestrator\<close>

definition MAX_RECURSION :: nat where
  "MAX_RECURSION = 100"

text \<open>\<^verbatim>\<open>const MAX_RECURSION = 10;\<close> in the job that runs from the last posted title\<close>

definition MAX_RECURSION_by_title :: nat where
  "MAX_RECURSION_by_title = 10"

text \<open>The filtered fragments, the BBCode body and the final message text.\<close>

definition finalUpdates_of :: "'t env \<Rightarrow> node list \<Rightarrow> jsstring list" where
  "finalUpdates_of env updateElements =
     forum_topic_filter (cheerio_text env) (length updateElements) False 0
       (map (\<lambda>el. trim (replace_all marker_literal_regex (cheerio_html env el))) updateElements)"

definition bbcode_of :: "'t env \<Rightarrow> jsstring list \<Rightarrow> jsstring" where
  "bbcode_of env finalUpdates =
     join [10, 10]
       (filter (\<lambda>line. length line > 0)
         (map trim (split 10 (concat (map (converter_feed env) finalUpdates)))))"

definition finalPost_of :: "jsstring \<Rightarrow> jsstring \<Rightarrow> jsstring \<Rightarrow> jsstring" where
  "finalPost_of finalTitle imageUrl bbcode =
     js ''[center][b]'' @ finalTitle @ js ''[/b][/center]'' @ [10, 10]
     @ js ''[img]'' @ imageUrl @ js ''[/img]'' @ [10, 10] @ bbcode"

text \<open>
  \<open>processPost\<close> is given in three parts. \<open>prepare\<close> is the body from \<open>cheerio.load\<close> to
  the composed \<open>finalPost\<close>: it returns the argument of \<open>insertMessage\<close> with the two
  ids of the URL, or \<open>None\<close> where the source logs a skip and calls itself. \<open>publish\<close>
  is the rest: the Duplicate Guard, \<open>insertMessage\<close> and the last log line.
  \<open>processPost\<close> is the head of the function and the recursive call
  \<^verbatim>\<open>await processPost(connection, formatDate(nextPost.created), depth + 1); return;\<close>
  that all four skips share. The result names the \<open>return\<close> that ended the run.
\<close>

datatype outcome =
    MaxRecursionReached
  | NoNextPost
  | Written
  | WriteFailed write_error
  | Threw

definition prepare ::
  "'t env \<Rightarrow> content_row \<Rightarrow> 't world \<Rightarrow> (message_data \<times> jsstring \<times> jsstring) option \<times> 't world" where
  "prepare env nextPost w =
     (case update_segment (cheerio_load env (c_fulltext nextPost)) (lastIndex w) of
        (updateElements, lastIndex') \<Rightarrow>
     (let updateTitle = updateTitle_of (first_text updateElements);
          w0 = w\<lparr>lastIndex := 0\<rparr>;
          strippedTitle = strippedTitle_of updateTitle
      in case urlMatch (c_fulltext nextPost) of
        None \<Rightarrow> (None, logger Info_SkipNoUrl w0)
      | Some (category, thread) \<Rightarrow>
     (case getSubjectAndParent env category thread w0 of
        (None, w1) \<Rightarrow> (None, logger Info_SkipNoSubjectAndParent w1)
      | (Some subjectAndParent, w1) \<Rightarrow>
     (let finalTitle = finalTitle_of strippedTitle (c_title nextPost);
          finalUpdates = finalUpdates_of env updateElements
      in case getImage env (c_id nextPost) w1 of
        (None, w2) \<Rightarrow> (None, logger Info_SkipNoImage w2)
      | (Some imageUrl, w2) \<Rightarrow>
          (Some (\<lparr>parentId = t_first_post_id subjectAndParent,
                   threadId = Number (Some thread),
                   categoryId = Number (Some category),
                   subject = t_subject subjectAndParent,
                   message = finalPost_of finalTitle imageUrl (bbcode_of env finalUpdates),
                   userId = Number (USER_ID env),
                   name = USER_NAME env,
                   created = c_created nextPost,
                   imageURL = imageUrl\<rparr>, category, thread), w2)))))"

definition publish ::
  "'t env \<Rightarrow> message_data \<times> jsstring \<times> jsstring \<Rightarrow> 't world \<Rightarrow> outcome option \<times> 't world" where
  "publish env candidate w =
     (case candidate of (data, category, thread) \<Rightarrow>
      case hasBeenPosted env (message data) w of
        (True, w1) \<Rightarrow> (None, logger Info_AlreadyPosted w1)
      | (False, w1) \<Rightarrow>
          (case insertMessage env data w1 of
             (None, w2) \<Rightarrow> (Some Written, logger (Info_PostedAt category thread) w2)
           | (Some err, w2) \<Rightarrow> (Some (WriteFailed err), logger (Info_PostedAt category thread) w2)))"

definition attempt :: "'t env \<Rightarrow> content_row \<Rightarrow> 't world \<Rightarrow> outcome option \<times> 't world" where
  "attempt env nextPost w =
     (case prepare env nextPost w of
        (None, w') \<Rightarrow> (None, w')
      | (Some candidate, w') \<Rightarrow> publish env candidate w')"

function processPost :: "'t env \<Rightarrow> jsstring \<Rightarrow> nat \<Rightarrow> 't world \<Rightarrow> outcome \<times> 't world" where
  "processPost env created_after depth w =
     (let w0 = (if depth mod 100 = 0 then logger (Info_RecursionDepth depth) w else w) in
      if depth > MAX_RECURSION then (MaxRecursionReached, logger Info_MaxRecursion w0)
      else
        (case getNextPost env created_after w0 of
           (None, w1) \<Rightarrow> (NoNextPost, logger Info_NoNextPost w1)
         | (Some nextPost, w1) \<Rightarrow>
             (case attempt env nextPost
                     (logger (Console_NextPost (c_id nextPost) (c_created nextPost) (c_title nextPost)) w1) of
                (Some ended, w2) \<Rightarrow> (ended, w2)
              | (None, w2) \<Rightarrow>
                  (case formatDate env (c_created nextPost) of
                     None \<Rightarrow> (Threw, w2)
                   | Some next_created \<Rightarrow> processPost env next_created (depth + 1) w2))))"
  by pat_completeness auto
termination
  by (relation "measure (\<lambda>(env, created_after, depth, w). Suc MAX_RECURSION - depth)") auto

text \<open>\<open>main\<close>; \<open>None\<close> when it returns before \<open>processPost\<close>.\<close>

definition falsy :: "jsstring option \<Rightarrow> bool" where
  "falsy v = (case v of None \<Rightarrow> True | Some s \<Rightarrow> s = [])"

definition main :: "'t env \<Rightarrow> 't world \<Rightarrow> outcome option \<times> 't world" where
  "main env w =
     (if falsy (USER_ID env) then (None, logger Error_UserIdNotSet w)
      else if falsy (USER_NAME env) then (None, logger Error_UserNameNotSet w)
      else if \<not> connects env then (None, logger Error_ConnectFailed w)
      else
        (case getLastProcessedDate w of
           None \<Rightarrow> (None, logger Info_NoLastCreated w)
         | Some lastCreated \<Rightarrow>
             if lastCreated = [] then (None, logger Info_NoLastCreated w)
             else
               (case processPost env lastCreated 0 w of
                  (Threw, w') \<Rightarrow> (Some Threw, w')
                | (ended, w') \<Rightarrow> (Some ended, logger Info_Disconnected w'))))"

section \<open>Reference statements and example inputs\<close>

text \<open>
  The update segment as section 4.1 of the specification words it, for comparison with
  \<open>update_segment\<close>: a fragment matches when the pattern occurs in its text; if none
  matches the segment is the whole list, otherwise it is the suffix that starts at the
  last matching fragment.
\<close>

definition has_marker :: "jsstring \<Rightarrow> bool" where
  "has_marker text = fst (regexp_test UPDATE_REGEX text 0)"

definition spec_update_segment :: "node list \<Rightarrow> node list" where
  "spec_update_segment unrolled =
     (case filter (\<lambda>k. has_marker (text_of (unrolled ! k))) (rev [0..<length unrolled]) of
        [] \<Rightarrow> unrolled
      | k # _ \<Rightarrow> drop k unrolled)"

text \<open>The parsed body \<^verbatim>\<open><p>intro</p><p>[UPDATE] x</p>\<close>.\<close>

definition intro_then_update :: "node list" where
  "intro_then_update =
     [Element (js ''p'') [] [TextNode (js ''intro'')],
      Element (js ''p'') [] [TextNode (js ''[UPDATE] x'')]]"

text \<open>A body that links two threads.\<close>

definition two_thread_links :: jsstring where
  "two_thread_links =
     js ''<p>See <a href='' @ [34] @ js ''https://gameworld.gr/forum/5/10'' @ [34]
     @ js ''>this</a> and the forum topic <a href='' @ [34] @ js ''https://gameworld.gr/forum/7/20''
     @ [34] @ js ''>here</a></p>''"

text \<open>
  What a run leaves alone when it only reads: the tables, the transaction, the file and
  the list of writes to it.
\<close>

definition unchanged :: "'t world \<Rightarrow> 't world \<Rightarrow> bool" where
  "unchanged w w' =
     (tables w' = tables w \<and> transaction w' = transaction w
      \<and> last_created_txt w' = last_created_txt w \<and> writeFile_calls w' = writeFile_calls w)"

text \<open>The number of content items a run has fetched: one \<open>console.log\<close> for each.\<close>

fun is_examined :: "log_entry \<Rightarrow> bool" where
  "is_examined (Console_NextPost i d t) = True"
| "is_examined e = False"

definition examined :: "'t world \<Rightarrow> nat" where
  "examined w = length (filter is_examined (logged w))"

text \<open>
  \<open>skips env created_after depth n w\<close>: from this call of \<open>processPost\<close> on, the next
  \<open>n\<close> content items are fetched and each of them is skipped.
\<close>

fun skips :: "'t env \<Rightarrow> jsstring \<Rightarrow> nat \<Rightarrow> nat \<Rightarrow> 't world \<Rightarrow> bool" where
  "skips env created_after depth 0 w = True"
| "skips env created_after depth (Suc n) w =
     (case getNextPost env created_after
             (if depth mod 100 = 0 then logger (Info_RecursionDepth depth) w else w) of
        (None, w1) \<Rightarrow> False
      | (Some nextPost, w1) \<Rightarrow>
          (case attempt env nextPost
                  (logger (Console_NextPost (c_id nextPost) (c_created nextPost) (c_title nextPost)) w1) of
             (Some ended, w2) \<Rightarrow> False
           | (None, w2) \<Rightarrow>
               (case formatDate env (c_created nextPost) of
                  None \<Rightarrow> False
                | Some next_created \<Rightarrow> skips env next_created (Suc depth) n w2)))"

text \<open>
  \<open>skipped_to env created_after depth n w\<close>: the call of \<open>processPost\<close> that a run
  reaches when, from this call on, it fetches \<open>n\<close> content items and skips each of them;
  the result is the bound and the world of that call, which has the depth \<open>depth + n\<close>.
\<close>

fun skipped_to :: "'t env \<Rightarrow> jsstring \<Rightarrow> nat \<Rightarrow> nat \<Rightarrow> 't world \<Rightarrow> (jsstring \<times> 't world) option" where
  "skipped_to env created_after depth 0 w = Some (created_after, w)"
| "skipped_to env created_after depth (Suc n) w =
     (case getNextPost env created_after
             (if depth mod 100 = 0 then logger (Info_RecursionDepth depth) w else w) of
        (None, w1) \<Rightarrow> None
      | (Some nextPost, w1) \<Rightarrow>
          (case attempt env nextPost
                  (logger (Console_NextPost (c_id nextPost) (c_created nextPost) (c_title nextPost)) w1) of
             (Some ended, w2) \<Rightarrow> None
           | (None, w2) \<Rightarrow>
               (case formatDate env (c_created nextPost) of
                  None \<Rightarrow> None
                | Some next_created \<Rightarrow> skipped_to env next_created (Suc depth) n w2)))"

text \<open>
  \<open>candidate_of env created_after depth w\<close>: the content item that this call of
  \<open>processPost\<close> fetches, with the argument of \<open>insertMessage\<close> composed from it and the
  world in which \<open>insertMessage\<close> is called. It is \<open>None\<close> when the call does not get
  as far as \<open>insertMessage\<close>: no item, one of the skips, or the Duplicate Guard answers
  true.
\<close>

definition candidate_of ::
  "'t env \<Rightarrow> jsstring \<Rightarrow> nat \<Rightarrow> 't world \<Rightarrow> (content_row \<times> message_data \<times> 't world) option" where
  "candidate_of env created_after depth w =
     (case getNextPost env created_after
             (if depth mod 100 = 0 then logger (Info_RecursionDepth depth) w else w) of
        (None, w1) \<Rightarrow> None
      | (Some nextPost, w1) \<Rightarrow>
          (case prepare env nextPost
                  (logger (Console_NextPost (c_id nextPost) (c_created nextPost) (c_title nextPost)) w1) of
             (None, w2) \<Rightarrow> None
           | (Some (data, category, thread), w2) \<Rightarrow>
               (case hasBeenPosted env (message data) w2 of
                  (True, w3) \<Rightarrow> None
                | (False, w3) \<Rightarrow> Some (nextPost, data, w3))))"

text \<open>
  The query of \<open>getNextPost\<close> compares the column \<open>created\<close> with the bound
  (\<^verbatim>\<open>WHERE created > ?\<close>), and the driver hands the column over as a \<open>Date\<close>, which it
  builds by reading the text of the column as a time of the time zone of the process
  (\<open>dbConfig\<close> sets no \<open>timezone\<close>). \<open>column_text tm\<close> is the text of the column from
  which the driver built the instant \<open>tm\<close>. Texts of the form \<open>yyyy-MM-dd HH:mm:ss\<close> are
  compared as strings.

  \<open>where_created_after\<close>: the row that the query returns for a bound has a column text
  after the bound. \<open>printed_no_earlier\<close>: \<open>formatDate\<close> prints an instant in Europe/Athens
  no earlier than the column text it was built from, as it does when the process runs in
  the time zone Europe/Athens, where it prints the column text itself.
\<close>

definition where_created_after :: "'t env \<Rightarrow> (int \<Rightarrow> jsstring) \<Rightarrow> bool" where
  "where_created_after env column_text =
     (\<forall>t bound row rows tm.
        select_next_post env t bound = Some (row # rows) \<longrightarrow> c_created row = Date tm
          \<longrightarrow> bound < column_text tm)"

definition printed_no_earlier :: "'t env \<Rightarrow> (int \<Rightarrow> jsstring) \<Rightarrow> bool" where
  "printed_no_earlier env column_text = (\<forall>tm. column_text tm \<le> format_athens env tm)"

subsection \<open>A small database and library for concrete runs\<close>

text \<open>
  A store with the tables the program touches and an environment over it, used for the
  concrete runs below. \<open>guard_fails\<close> makes the driver reject the query of
  \<open>hasBeenPosted\<close>. The statements report the rows they change, as MySQL does.
\<close>

record store =
  jos_content :: "content_row list"
  jos_kunena_topics :: "(jsstring \<times> jsstring \<times> topic_row) list"
  jos_kunena_categories :: "jsstring list"
  jos_jreviews_media :: "(int \<times> media_row) list"
  jos_kunena_messages :: "(int \<times> jsnumber \<times> jsstring) list"
  jos_kunena_messages_text :: "text_row list"
  jos_kunena_users :: "(jsnumber \<times> nat) list"
  jos_community_activities :: "(int \<times> int) list"

fun demo_execute :: "statement \<Rightarrow> store \<Rightarrow> header option \<times> store" where
  "demo_execute (InsertMessage parent thread cat subj uid nm ts ip) s =
     (let new_id = 1 + int (length (jos_kunena_messages s)) in
      (Some \<lparr>affectedRows = 1, insertId = new_id\<rparr>,
       s\<lparr>jos_kunena_messages := jos_kunena_messages s @ [(new_id, uid, subj)]\<rparr>))"
| "demo_execute (InsertMessageText mid msg) s =
     (Some \<lparr>affectedRows = 1, insertId = 0\<rparr>,
      s\<lparr>jos_kunena_messages_text :=
          jos_kunena_messages_text s @ [\<lparr>mesid = mid, message_text = msg\<rparr>]\<rparr>)"
| "demo_execute (UpdateUserPosts uid) s =
     (Some \<lparr>affectedRows = length (filter (\<lambda>u. fst u = uid) (jos_kunena_users s)), insertId = 0\<rparr>,
      s\<lparr>jos_kunena_users :=
          map (\<lambda>u. if fst u = uid then (fst u, Suc (snd u)) else u) (jos_kunena_users s)\<rparr>)"
| "demo_execute (UpdateTopic mid ts uid nm thread) s =
     (Some \<lparr>affectedRows =
               length (filter (\<lambda>t. Number (Some (fst (snd t))) = thread) (jos_kunena_topics s)),
             insertId = 0\<rparr>, s)"
| "demo_execute (UpdateCategory mid ts cat) s =
     (Some \<lparr>affectedRows = length (filter (\<lambda>c. Number (Some c) = cat) (jos_kunena_categories s)),
             insertId = 0\<rparr>, s)"
| "demo_execute (InsertActivity uid title content thread ts) s =
     (let new_id = 1 + int (length (jos_community_activities s)) in
      (Some \<lparr>affectedRows = 1, insertId = new_id\<rparr>,
       s\<lparr>jos_community_activities := jos_community_activities s @ [(new_id, 0)]\<rparr>))"
| "demo_execute (UpdateActivityLikeId activity) s =
     (Some \<lparr>affectedRows = length (filter (\<lambda>a. fst a = activity) (jos_community_activities s)),
             insertId = 0\<rparr>,
      s\<lparr>jos_community_activities :=
          map (\<lambda>a. if fst a = activity then (fst a, activity) else a) (jos_community_activities s)\<rparr>)"

text \<open>
  Europe/Athens, \<open>yyyy-MM-dd HH:mm:ss\<close>, for the instants of the first hour of
  2024-01-01 there (from 2023-12-31T22:00:00Z on), which is where the example rows lie.
\<close>

definition two_digits :: "int \<Rightarrow> jsstring" where
  "two_digits n = [48 + n div 10, 48 + n mod 10]"

definition demo_format :: "int \<Rightarrow> jsstring" where
  "demo_format t =
     (let secs = (t - 1704060000000) div 1000
      in js ''2024-01-01 00:'' @ two_digits (secs div 60 mod 60) @ js '':'' @ two_digits (secs mod 60))"

definition demo_next_post :: "store \<Rightarrow> jsstring \<Rightarrow> content_row list option" where
  "demo_next_post s bound =
     Some (case find (\<lambda>row. case c_created row of
                        InvalidDate \<Rightarrow> False
                      | Date t \<Rightarrow> if bound < demo_format t
                                  then js_includes (js ''forum topic'') (c_fulltext row) else False)
                  (jos_content s) of
             None \<Rightarrow> []
           | Some row \<Rightarrow> [row])"

definition demo_posted :: "store \<Rightarrow> jsnumber \<Rightarrow> jsstring \<Rightarrow> text_row list" where
  "demo_posted s uid msg =
     take 1 (filter (\<lambda>t. message_text t = msg
                        \<and> filter (\<lambda>m. fst m = mesid t \<and> fst (snd m) = uid) (jos_kunena_messages s) \<noteq> [])
               (jos_kunena_messages_text s))"

fun demo_html :: "node \<Rightarrow> jsstring" where
  "demo_html (Element tag attrs kids) =
     js ''<'' @ tag @ js ''>'' @ concat (map demo_html kids) @ js ''</'' @ tag @ js ''>''"
| "demo_html (TextNode s) = s"
| "demo_html (Comment s) = js ''<!--'' @ s @ js ''-->''"

definition tag_regex :: rx where
  "tag_regex = Cat (chr 60) (Cat (LazyStar (Sym (\<lambda>x. x \<noteq> 62))) (chr 62))"

text \<open>
  A parser for bodies that are a sequence of paragraphs \<^verbatim>\<open><p>text</p>\<close>, which is what
  the example articles are.
\<close>

definition paragraph_regex :: rx where
  "paragraph_regex =
     lit (js ''<p>'') (Cat (Group 1 (LazyStar (Sym (\<lambda>x. x \<noteq> 60)))) (lit (js ''</p'') (chr 62)))"

definition demo_load :: "jsstring \<Rightarrow> node list" where
  "demo_load body =
     map (\<lambda>m. Element (js ''p'') [] [TextNode (group 1 m)]) (match_from paragraph_regex body 0)"

definition demo_env :: "bool \<Rightarrow> store env" where
  "demo_env guard_fails =
     \<lparr>USER_ID = Some (js ''42''),
      USER_NAME = Some (js ''newsbot''),
      connects = True,
      now = 1704063600000,
      select_next_post = demo_next_post,
      select_subject_parent =
        (\<lambda>s category thread.
           Some (map (\<lambda>t. snd (snd t))
                   (take 1 (filter (\<lambda>t. fst t = category \<and> fst (snd t) = thread) (jos_kunena_topics s))))),
      select_image =
        (\<lambda>s listing. Some (map snd (take 1 (filter (\<lambda>m. fst m = listing) (jos_jreviews_media s))))),
      select_posted = (\<lambda>s uid msg. if guard_fails then None else Some (demo_posted s uid msg)),
      execute = demo_execute,
      cheerio_load = demo_load,
      cheerio_html = demo_html,
      cheerio_text = replace_all tag_regex,
      converter_feed = (\<lambda>markup. replace_all tag_regex markup @ [10]),
      format_athens = demo_format,
      number_toString = (\<lambda>n. case n of Number None \<Rightarrow> js ''NaN'' | Number (Some s) \<Rightarrow> s)\<rparr>"

text \<open>A forum with one thread, one poster and one article to post.\<close>

definition article_body :: jsstring where
  "article_body =
     js ''<p>Old.</p><p>[UPDATE: Map]</p><p>New.</p><p>forum topic forum/7/20</p><p>Bye</p>''"

definition article :: content_row where
  "article = \<lparr>c_id = 7, c_title = js '' Launch '', c_fulltext = article_body,
              c_created = Date 1704060030000\<rparr>"

definition forum :: store where
  "forum =
     \<lparr>jos_content = [article],
      jos_kunena_topics = [(js ''7'', js ''20'', \<lparr>t_subject = js ''Launch'', t_first_post_id = 3\<rparr>)],
      jos_kunena_categories = [js ''7''],
      jos_jreviews_media =
        [(7, \<lparr>rel_path = js ''a/'', filename = js ''m'', file_extension = js ''jpg''\<rparr>)],
      jos_kunena_messages = [],
      jos_kunena_messages_text = [],
      jos_kunena_users = [(Number (Some (js ''42'')), 10)],
      jos_community_activities = []\<rparr>"

definition start :: "'t \<Rightarrow> 't world" where
  "start s =
     \<lparr>tables = s, transaction = None, last_created_txt = Some (js ''2024-01-01 00:00:00'' @ [10]),
      writeFile_calls = [], lastIndex = 0, logged = []\<rparr>"

text \<open>The same forum where the poster has no row in \<open>jos_kunena_users\<close>.\<close>

definition forum_without_user :: store where
  "forum_without_user = forum\<lparr>jos_kunena_users := []\<rparr>"

text \<open>The rows of the poster \<open>uid\<close> that carry the text \<open>msg\<close>.\<close>

definition posted_copies :: "store \<Rightarrow> jsnumber \<Rightarrow> jsstring \<Rightarrow> nat" where
  "posted_copies s uid msg =
     length (filter (\<lambda>t. message_text t = msg
                        \<and> filter (\<lambda>m. fst m = mesid t \<and> fst (snd m) = uid) (jos_kunena_messages s) \<noteq> [])
               (jos_kunena_messages_text s))"

text \<open>
  The state inside the \<open>try\<close> of \<open>insertMessage\<close>, compared with the state \<open>w\<close> at its
  start: a transaction is open and nothing outside it has moved.
\<close>

definition in_transaction :: "'t world \<Rightarrow> 't world \<Rightarrow> bool" where
  "in_transaction w w' =
     (tables w' = tables w \<and> transaction w' \<noteq> None
      \<and> last_created_txt w' = last_created_txt w \<and> writeFile_calls w' = writeFile_calls w
      \<and> examined w' = examined w)"

text \<open>The first statement of \<open>insertMessage\<close> for the data \<open>data\<close>.\<close>

definition first_statement :: "'t env \<Rightarrow> message_data \<Rightarrow> statement" where
  "first_statement env data =
     InsertMessage (parentId data) (threadId data) (categoryId data) (subject data)
       (userId data) (name data) (now env div 1000) (js ''162.158.210.219'')"

definition thrown_or_done_in_transaction ::
  "'t world \<Rightarrow> (write_error \<times> 't world) + ('a \<times> 't world) \<Rightarrow> bool" where
  "thrown_or_done_in_transaction w r =
     (case r of Inl (err, w') \<Rightarrow> in_transaction w w' | Inr (x, w') \<Rightarrow> in_transaction w w')"

text \<open>A step that only reads and logs, and fetches no content item.\<close>

definition quiet :: "'t world \<Rightarrow> 't world \<Rightarrow> bool" where
  "quiet w w' = (unchanged w w' \<and> examined w' = examined w)"

text \<open>What the example article becomes, and the forum after it has been posted once.\<close>

definition article_message :: jsstring where
  "article_message =
     js ''[center][b] Map[/b][/center]'' @ [10, 10]
     @ js ''[img]https://gameworld.gr/media/reviews/photos/a/m.jpg[/img]'' @ [10, 10]
     @ js ''New.''"

definition article_data :: message_data where
  "article_data =
     \<lparr>parentId = 3, threadId = Number (Some (js ''20'')), categoryId = Number (Some (js ''7'')),
      subject = js ''Launch'', message = article_message, userId = Number (Some (js ''42'')),
      name = Some (js ''newsbot''), created = Date 1704060030000,
      imageURL = js ''https://gameworld.gr/media/reviews/photos/a/m.jpg''\<rparr>"

definition forum_posted :: store where
  "forum_posted =
     forum\<lparr>jos_kunena_messages := [(1, Number (Some (js ''42'')), js ''Launch'')],
           jos_kunena_messages_text := [\<lparr>mesid = 1, message_text = article_message\<rparr>],
           jos_kunena_users := [(Number (Some (js ''42'')), 11)],
           jos_community_activities := [(1, 1)]\<rparr>"

text \<open>
  The working copies of \<open>forum_without_user\<close> inside the transaction of
  \<open>insertMessage\<close>: after the insert of the message, and after the insert of its text.
\<close>

definition with_message :: store where
  "with_message =
     forum_without_user\<lparr>jos_kunena_messages := [(1, Number (Some (js ''42'')), js ''Launch'')]\<rparr>"

definition with_message_text :: store where
  "with_message_text =
     with_message\<lparr>jos_kunena_messages_text := [\<lparr>mesid = 1, message_text = article_message\<rparr>]\<rparr>"

definition inside :: "store \<Rightarrow> log_entry list \<Rightarrow> store world" where
  "inside working entries =
     (start forum_without_user)\<lparr>transaction := Some working, logged := entries\<rparr>"

text \<open>
  A backlog of \<open>n\<close> old articles, one for each second after 2024-01-01 00:00:00, that
  mention the forum topic but link no thread. The table is its number of rows; the row
  after a bound is found from the seconds of the bound.
\<close>

definition seconds_of :: "jsstring \<Rightarrow> int" where
  "seconds_of s = ((s ! 14 - 48) * 10 + (s ! 15 - 48)) * 60 + (s ! 17 - 48) * 10 + (s ! 18 - 48)"

definition backlog_article :: "int \<Rightarrow> content_row" where
  "backlog_article k =
     \<lparr>c_id = k, c_title = js ''old'', c_fulltext = js ''see the forum topic'',
      c_created = Date (1704060001000 + 1000 * k)\<rparr>"

definition backlog_env :: "nat env" where
  "backlog_env =
     \<lparr>USER_ID = Some (js ''42''),
      USER_NAME = Some (js ''newsbot''),
      connects = True,
      now = 1704063600000,
      select_next_post =
        (\<lambda>n bound. Some (if seconds_of bound < int n then [backlog_article (seconds_of bound)] else [])),
      select_subject_parent = (\<lambda>n category thread. Some []),
      select_image = (\<lambda>n listing. Some []),
      select_posted = (\<lambda>n uid msg. Some []),
      execute = (\<lambda>stmt n. (None, n)),
      cheerio_load = demo_load,
      cheerio_html = demo_html,
      cheerio_text = replace_all tag_regex,
      converter_feed = (\<lambda>markup. replace_all tag_regex markup @ [10]),
      format_athens = demo_format,
      number_toString = (\<lambda>n. case n of Number None \<Rightarrow> js ''NaN'' | Number (Some s) \<Rightarrow> s)\<rparr>"

text \<open>
  The worlds of a run that starts from \<open>start s\<close> and fetches the example article:
  after the fetch, and after \<open>prepare\<close> with its two queries.
\<close>

definition fetched_world :: "store \<Rightarrow> store world" where
  "fetched_world s =
     logger (Console_NextPost (c_id article) (c_created article) (c_title article))
       (logger Info_QuerySuccessful (logger (Info_RecursionDepth 0) (start s)))"

definition prepared_world :: "store \<Rightarrow> store world" where
  "prepared_world s =
     logger Info_QuerySuccessful (logger Info_QuerySuccessful ((fetched_world s)\<lparr>lastIndex := 0\<rparr>))"

text \<open>
  The condition of every \<open>throw\<close> of \<open>insertMessage\<close>,
  \<^verbatim>\<open>!res || res.affectedRows === 0\<close>, for the statement \<open>stmt\<close> run in the world \<open>w\<close>: the
  driver rejected it, or it reports zero affected rows.
\<close>

definition statement_fails :: "'t env \<Rightarrow> statement \<Rightarrow> 't world \<Rightarrow> bool" where
  "statement_fails env stmt w =
     (case fst (queryDatabase_header env stmt w) of
        None \<Rightarrow> True
      | Some res \<Rightarrow> affectedRows res = 0)"

text \<open>
  The example environment with a driver that rejects one of the seven statements of
  \<open>insertMessage\<close>, the one with the number \<open>k\<close> in the order of the source.
\<close>

fun statement_no :: "statement \<Rightarrow> nat" where
  "statement_no (InsertMessage parent thread cat subj uid nm ts ip) = 1"
| "statement_no (InsertMessageText mid msg) = 2"
| "statement_no (UpdateUserPosts uid) = 3"
| "statement_no (UpdateTopic mid ts uid nm thread) = 4"
| "statement_no (UpdateCategory mid ts cat) = 5"
| "statement_no (InsertActivity uid title content thread ts) = 6"
| "statement_no (UpdateActivityLikeId activity) = 7"

definition rejecting_env :: "nat \<Rightarrow> store env" where
  "rejecting_env k =
     (demo_env False)
       \<lparr>execute := (\<lambda>stmt s. if statement_no stmt = k then (None, s) else demo_execute stmt s)\<rparr>"

text \<open>
  The example forum read by a process whose time zone is seven hours ahead of Athens
  (UTC+9). \<open>east_print\<close> is how the instants of the example hour read in that zone, which
  is the text of the column \<open>created\<close> from which the driver of such a process builds
  them: the article with the instant 2023-12-31T22:00:30Z has the column text
  \<open>2024-01-01 07:00:30\<close>. The query compares that text with the bound. The file
  \<open>last_created.txt\<close> holds \<open>2024-01-01 06:00:00\<close>.
\<close>

definition east_print :: "int \<Rightarrow> jsstring" where
  "east_print t =
     (let secs = (t - 1704060000000) div 1000
      in js ''2024-01-01 07:'' @ two_digits (secs div 60 mod 60) @ js '':'' @ two_digits (secs mod 60))"

definition east_next_post :: "store \<Rightarrow> jsstring \<Rightarrow> content_row list option" where
  "east_next_post s bound =
     Some (case find (\<lambda>row. case c_created row of
                        InvalidDate \<Rightarrow> False
                      | Date t \<Rightarrow> if bound < east_print t
                                  then js_includes (js ''forum topic'') (c_fulltext row) else False)
                  (jos_content s) of
             None \<Rightarrow> []
           | Some row \<Rightarrow> [row])"

definition east_env :: "store env" where
  "east_env = (demo_env False)\<lparr>select_next_post := east_next_post\<rparr>"

definition late_start :: "'t \<Rightarrow> 't world" where
  "late_start s = (start s)\<lparr>last_created_txt := Some (js ''2024-01-01 06:00:00'')\<rparr>"

definition late_fetched :: "store world" where
  "late_fetched =
     logger (Console_NextPost (c_id article) (c_created article) (c_title article))
       (logger Info_QuerySuccessful (logger (Info_RecursionDepth 0) (late_start forum)))"

definition late_prepared :: "store world" where
  "late_prepared =
     logger Info_QuerySuccessful (logger Info_QuerySuccessful (late_fetched\<lparr>lastIndex := 0\<rparr>))"

section \<open>HTML Segmenter: properties\<close>

text \<open>
  C3. After unrolling, the update segment should be the whole list when no fragment
  matches the marker pattern and otherwise the suffix that starts at the last matching
  fragment. For the body \<^verbatim>\<open><p>intro</p><p>[UPDATE] x</p>\<close>, read by a fresh process
  (\<open>lastIndex = 0\<close>), the unrolled list is the two paragraphs and the second one holds a
  marker, so the segment should be the second paragraph alone; the source keeps both.
  The \<open>test\<close> of \<open>unrollElements\<close> on the second paragraph leaves \<open>lastIndex = 8\<close>, and
  the backward scan starts its \<open>test\<close> of the same text there, behind the marker.
\<close>

theorem update_segment_misses_last_marker:
  "unrollChildren intro_then_update 0 = (intro_then_update, 8)
   \<and> has_marker (text_of (intro_then_update ! 1))
   \<and> spec_update_segment intro_then_update = [intro_then_update ! 1]
   \<and> fst (update_segment intro_then_update 0) = intro_then_update"
  by code_simp

text \<open>
  C5. The marker text \<open>[UPDATE: Foo Bar]\<close> does not give the title \<open>Foo Bar\<close>: the scan
  stops at the colon, so the blank that follows the colon stays in front of the title.
\<close>

theorem title_of_marker_is_not_trimmed:
  "extracted_title (js ''[UPDATE: Foo Bar]'') \<noteq> js ''Foo Bar''"
  by code_simp

text \<open>
  C5, as the source has it: for the marker text \<open>[UPDATE: Foo Bar]\<close> the match is the
  whole marker and the extracted title is \<open>Foo Bar\<close> with one blank in front of it.
\<close>

theorem title_of_marker_with_colon:
  "updateTitle_of (js ''[UPDATE: Foo Bar]'') = Some (js ''[UPDATE: Foo Bar]'')
   \<and> extracted_title (js ''[UPDATE: Foo Bar]'') = js '' Foo Bar''"
  by code_simp

text \<open>
  C6. The marker \<open>[UPDATE]\<close> does not give an empty title: the scan runs back to the
  opening bracket and collects the word between the brackets.
\<close>

theorem title_of_bare_marker_is_not_empty:
  "extracted_title (js ''[UPDATE]'') \<noteq> []"
  by code_simp

text \<open>
  C6, as the source has it: for the marker \<open>[UPDATE]\<close> the extracted title is \<open>UPDATE\<close>
  and is the title of the post whatever the title of the content item is; the title of
  the item, trimmed, is used when the buffer is empty.
\<close>

theorem title_of_bare_marker:
  "extracted_title (js ''[UPDATE]'') = js ''UPDATE''
   \<and> finalTitle_of (strippedTitle_of (updateTitle_of (js ''[UPDATE]''))) title = js ''UPDATE''
   \<and> finalTitle_of [] title = trim title"
proof -
  have "strippedTitle_of (updateTitle_of (js ''[UPDATE]'')) = rev (js ''UPDATE'')"
    by code_simp
  moreover have "rev (rev (js ''UPDATE'')) = js ''UPDATE''" "js ''UPDATE'' \<noteq> []"
    by (simp_all add: js_def)
  ultimately show ?thesis
    by (simp add: extracted_title_def finalTitle_of_def)
qed

section \<open>Thread target: properties\<close>

text \<open>
  C4. In a body that links \<open>forum/5/10\<close> and then \<open>forum/7/20\<close> the job that runs from
  the last posted title takes the first link, category 5 and thread 10; the job that
  runs from the stored creation date takes the last one, category 7 and thread 20.
\<close>

theorem first_link_wins_in_title_job:
  "urlMatch_by_title two_thread_links = Some (js ''5'', js ''10'')
   \<and> urlMatch two_thread_links = Some (js ''7'', js ''20'')"
  by code_simp

section \<open>Post Composer: properties\<close>

lemma forum_topic_filter_found:
  "forum_topic_filter markup_text n True i els = []"
  by (induction els arbitrary: i) auto

lemma forum_topic_filter_from:
  "forum_topic_filter markup_text (i + length els) False i els =
     take (length els - 2) els
     @ (case drop (length els - 2) els of
          [] \<Rightarrow> []
        | el # _ \<Rightarrow> if js_includes (js ''forum topic'') (markup_text el) then [] else [el])"
proof (induction els arbitrary: i)
  case Nil
  show ?case by simp
next
  case (Cons el els)
  show ?case
  proof (cases "length els \<le> 1")
    case True
    then have "length els = 0 \<or> length els = 1"
      by linarith
    then have "int i = int (i + length (el # els)) - 1 \<or> int i = int (i + length (el # els)) - 2"
      by auto
    with True show ?thesis
      by (simp add: forum_topic_filter_found)
  next
    case False
    then have far: "\<not> (int i = int (i + length (el # els)) - 1 \<or> int i = int (i + length (el # els)) - 2)"
      by auto
    from False have len: "length (el # els) - 2 = Suc (length els - 2)"
      by simp
    have "forum_topic_filter markup_text (i + length (el # els)) False i (el # els)
            = el # forum_topic_filter markup_text (Suc i + length els) False (Suc i) els"
      using far by simp
    also have "\<dots> = el # (take (length els - 2) els
        @ (case drop (length els - 2) els of
             [] \<Rightarrow> []
           | el # _ \<Rightarrow> if js_includes (js ''forum topic'') (markup_text el) then [] else [el]))"
      by (simp only: Cons.IH)
    finally show ?thesis
      by (simp only: len take_Suc_Cons drop_Suc_Cons append_Cons)
  qed
qed

text \<open>
  C9. The filter of the Post Composer keeps every fragment before the last two
  positions. At the first of the last two positions (the second to last fragment, or
  the only one) it sets its flag and keeps the fragment unless its text contains
  \<open>forum topic\<close>. Nothing after that position is kept, whatever its content: the one
  fragment that can be dropped as the boundary is the one at that position.
\<close>

theorem forum_topic_boundary:
  "forum_topic_filter markup_text (length els) False 0 els =
     take (length els - 2) els
     @ (case drop (length els - 2) els of
          [] \<Rightarrow> []
        | el # _ \<Rightarrow> if js_includes (js ''forum topic'') (markup_text el) then [] else [el])"
  using forum_topic_filter_from [of markup_text 0 els] by simp

section \<open>Frame lemmas: what reading and logging leave alone\<close>

declare processPost.simps [simp del]
declare match_from.simps [simp del]
declare decimal.simps [simp del]

lemma logger_fields [simp]:
  "tables (logger e w) = tables w"
  "transaction (logger e w) = transaction w"
  "last_created_txt (logger e w) = last_created_txt w"
  "writeFile_calls (logger e w) = writeFile_calls w"
  "lastIndex (logger e w) = lastIndex w"
  "logged (logger e w) = logged w @ [e]"
  "view (logger e w) = view w"
  by (simp_all add: logger_def view_def split: option.splits)

lemma examined_logger [simp]:
  "examined (logger e w) = examined w + (if is_examined e then 1 else 0)"
  by (simp add: examined_def)

lemma quiet_refl [simp]: "quiet w w"
  by (simp add: quiet_def unchanged_def)

lemma quiet_trans: "quiet a b \<Longrightarrow> quiet b c \<Longrightarrow> quiet a c"
  by (simp add: quiet_def unchanged_def)

lemma quiet_lastIndex [simp]:
  "quiet w (w'\<lparr>lastIndex := i\<rparr>) = quiet w w'"
  "quiet (w\<lparr>lastIndex := i\<rparr>) w' = quiet w w'"
  by (simp_all add: quiet_def unchanged_def examined_def)

lemma queryDatabase_quiet:
  "queryDatabase q w = (r, w') \<Longrightarrow> quiet w w'"
  by (auto simp: queryDatabase_def quiet_def unchanged_def split: option.splits)

lemma getNextPost_quiet:
  "getNextPost env bound w = (r, w') \<Longrightarrow> quiet w w'"
  by (auto simp: getNextPost_def split: prod.splits option.splits list.splits
      dest: queryDatabase_quiet)

lemma getNextPost_row:
  assumes "getNextPost env bound w = (Some row, w')"
  shows "\<exists>rows. select_next_post env (view w) bound = Some (row # rows)"
  using assms
  by (auto simp: getNextPost_def queryDatabase_def split: prod.splits option.splits list.splits)

lemma getSubjectAndParent_quiet:
  "getSubjectAndParent env category thread w = (r, w') \<Longrightarrow> quiet w w'"
  by (auto simp: getSubjectAndParent_def split: prod.splits option.splits list.splits
      dest: queryDatabase_quiet)

lemma getImage_quiet:
  "getImage env listing w = (r, w') \<Longrightarrow> quiet w w'"
  by (auto simp: getImage_def split: prod.splits option.splits list.splits
      dest: queryDatabase_quiet)

lemma hasBeenPosted_quiet:
  "hasBeenPosted env msg w = (r, w') \<Longrightarrow> quiet w w'"
  by (auto simp: hasBeenPosted_def split: prod.splits option.splits list.splits
      dest: queryDatabase_quiet)

lemma prepare_quiet:
  assumes "prepare env nextPost w = (r, w')"
  shows "quiet w w'"
proof -
  obtain updateElements li where seg:
    "update_segment (cheerio_load env (c_fulltext nextPost)) (lastIndex w) = (updateElements, li)"
    by (cases "update_segment (cheerio_load env (c_fulltext nextPost)) (lastIndex w)")
  have skip: "quiet w (logger e x)" if "quiet (w\<lparr>lastIndex := 0\<rparr>) x" "\<not> is_examined e" for e x
    using that by (simp add: quiet_def unchanged_def examined_def)
  show ?thesis
    using assms seg
    by (auto simp: prepare_def Let_def split: option.splits prod.splits
        dest!: getSubjectAndParent_quiet getImage_quiet
        intro!: skip elim: quiet_trans)
qed

section \<open>Transactional Writer: properties\<close>

lemma in_transaction_begin: "in_transaction w (beginTransaction w)"
  by (simp add: in_transaction_def beginTransaction_def examined_def)

lemma queryDatabase_header_in_transaction:
  assumes "queryDatabase_header env stmt w = (r, w')" and "in_transaction w0 w"
  shows "in_transaction w0 w'"
  using assms
  by (auto simp: queryDatabase_header_def in_transaction_def set_view_def examined_def logger_def
      split: prod.splits option.splits)

lemma step_in_transaction:
  assumes "in_transaction w0 w"
  shows "step env stmt err w = Inl (e, w') \<Longrightarrow> in_transaction w0 w' \<and> e = err"
    and "step env stmt err w = Inr (res, w') \<Longrightarrow> in_transaction w0 w'"
  using assms
  by (auto simp: step_def split: prod.splits option.splits if_splits
      dest: queryDatabase_header_in_transaction)

lemma step_bind:
  assumes "in_transaction w0 w"
    and "\<And>res w'. in_transaction w0 w' \<Longrightarrow> thrown_or_done_in_transaction w0 (k res w')"
  shows "thrown_or_done_in_transaction w0
           (case step env stmt err w of Inl thrown \<Rightarrow> Inl thrown | Inr (res, w') \<Rightarrow> k res w')"
proof (cases "step env stmt err w")
  case (Inl thrown)
  obtain e w' where "thrown = (e, w')" by (cases thrown)
  with Inl step_in_transaction(1) [OF assms(1), of env stmt err e w'] show ?thesis
    by (simp add: thrown_or_done_in_transaction_def)
next
  case (Inr passed)
  obtain res w' where "passed = (res, w')" by (cases passed)
  with Inr step_in_transaction(2) [OF assms(1), of env stmt err res w'] assms(2) show ?thesis
    by simp
qed

lemma insertMessage_statements_in_transaction:
  "thrown_or_done_in_transaction w (insertMessage_statements env data w)"
  unfolding insertMessage_statements_def Let_def
  by (intro step_bind in_transaction_begin) (simp_all add: thrown_or_done_in_transaction_def)

lemma insertMessage_failed:
  assumes "insertMessage env data w = (Some err, w')"
  shows "tables w' = tables w" and "transaction w' = None"
    and "last_created_txt w' = last_created_txt w" and "writeFile_calls w' = writeFile_calls w"
    and "examined w' = examined w"
  using assms insertMessage_statements_in_transaction [of w env data]
  by (auto simp: insertMessage_def rollback_def in_transaction_def examined_def logger_def
        thrown_or_done_in_transaction_def
      split: sum.splits prod.splits)

lemma insertMessage_committed:
  assumes "insertMessage env data w = (None, w')"
  shows "transaction w' = None"
    and "examined w' = examined w"
    and "created data = InvalidDate \<Longrightarrow>
           last_created_txt w' = last_created_txt w \<and> writeFile_calls w' = writeFile_calls w"
    and "created data = Date tm \<Longrightarrow>
           last_created_txt w' = Some (format_athens env tm)
           \<and> writeFile_calls w' = writeFile_calls w @ [format_athens env tm]"
  using assms insertMessage_statements_in_transaction [of w env data]
  by (auto simp: insertMessage_def commit_def in_transaction_def examined_def logger_def
        setLastProcessedDate_def writeFile_def thrown_or_done_in_transaction_def
      split: sum.splits prod.splits option.splits jsdate.splits)

lemma step_fails:
  assumes "statement_fails env stmt w"
  shows "step env stmt err w = Inl (err, snd (queryDatabase_header env stmt w))"
  using assms
  by (cases "queryDatabase_header env stmt w")
    (auto simp: statement_fails_def step_def split: option.splits)

text \<open>
  C1. \<open>insertMessage\<close> ends in its \<open>catch\<close> whenever one of its seven statements is
  rejected by the driver or reports zero affected rows: the first statement, or any
  later one after those before it have passed (\<open>step \<dots> = Inr (res, w)\<close> says that a
  statement has passed, with its result header and the world it leaves). It takes the
  other end, with the commit, when all seven have passed. Whenever it ends in the
  \<open>catch\<close>, the tables that are visible after it are the tables before it, so that no
  row of an earlier statement remains, no transaction is left open, and the file
  \<open>last_created.txt\<close> is neither written nor changed.
\<close>

theorem writer_rolls_back:
  "(insertMessage env data w = (Some err, w') \<longrightarrow>
      tables w' = tables w \<and> transaction w' = None
      \<and> last_created_txt w' = last_created_txt w \<and> writeFile_calls w' = writeFile_calls w)
   \<and> (statement_fails env (first_statement env data) (beginTransaction w) \<longrightarrow>
       fst (insertMessage env data w) = Some MessageInsertFailed)
   \<and> (step env (first_statement env data) MessageInsertFailed (beginTransaction w) = Inr (res1, w1) \<longrightarrow>
       (statement_fails env (InsertMessageText (insertId res1) (message data)) w1 \<longrightarrow>
        fst (insertMessage env data w) = Some MessageTextInsertFailed)
     \<and> (step env (InsertMessageText (insertId res1) (message data)) MessageTextInsertFailed w1
          = Inr (res2, w2) \<longrightarrow>
       (statement_fails env (UpdateUserPosts (userId data)) w2 \<longrightarrow>
        fst (insertMessage env data w) = Some UserPostCountUpdateFailed)
     \<and> (step env (UpdateUserPosts (userId data)) UserPostCountUpdateFailed w2 = Inr (res3, w3) \<longrightarrow>
       (statement_fails env
          (UpdateTopic (insertId res1) (now env div 1000) (userId data) (name data) (threadId data)) w3 \<longrightarrow>
        fst (insertMessage env data w) = Some TopicMetadataUpdateFailed)
     \<and> (step env
          (UpdateTopic (insertId res1) (now env div 1000) (userId data) (name data) (threadId data))
          TopicMetadataUpdateFailed w3 = Inr (res4, w4) \<longrightarrow>
       (statement_fails env (UpdateCategory (insertId res1) (now env div 1000) (categoryId data)) w4 \<longrightarrow>
        fst (insertMessage env data w) = Some CategoryMetadataUpdateFailed)
     \<and> (step env (UpdateCategory (insertId res1) (now env div 1000) (categoryId data))
          CategoryMetadataUpdateFailed w4 = Inr (res5, w5) \<longrightarrow>
       (statement_fails env
          (InsertActivity (userId data) (activityTitle env data)
             (activityContent env data (insertId res1)) (threadId data) (now env div 1000)) w5 \<longrightarrow>
        fst (insertMessage env data w) = Some CommunityActivityInsertFailed)
     \<and> (step env
          (InsertActivity (userId data) (activityTitle env data)
             (activityContent env data (insertId res1)) (threadId data) (now env div 1000))
          CommunityActivityInsertFailed w5 = Inr (res6, w6) \<longrightarrow>
       (statement_fails env (UpdateActivityLikeId (insertId res6)) w6 \<longrightarrow>
        fst (insertMessage env data w) = Some CommunityActivityLikeIdUpdateFailed)
     \<and> (step env (UpdateActivityLikeId (insertId res6)) CommunityActivityLikeIdUpdateFailed w6
          = Inr (res7, w7) \<longrightarrow>
        fst (insertMessage env data w) = None)))))))"
proof (intro conjI impI)
  assume "insertMessage env data w = (Some err, w')"
  from insertMessage_failed [OF this]
  show "tables w' = tables w" and "transaction w' = None"
    and "last_created_txt w' = last_created_txt w" and "writeFile_calls w' = writeFile_calls w"
    by simp_all
qed (simp_all add: insertMessage_def insertMessage_statements_def first_statement_def Let_def step_fails)

section \<open>Duplicate Guard and orchestrator: properties\<close>

lemma hasBeenPosted_result:
  "hasBeenPosted env msg w =
     (case select_posted env (view w) (Number (USER_ID env)) msg of
        None \<Rightarrow> (False, logger Error_Thrown (logger Error_Querying w))
      | Some [] \<Rightarrow> (False, logger Info_QuerySuccessful w)
      | Some (row # rows) \<Rightarrow> (True, logger Info_QuerySuccessful w))"
  by (simp add: hasBeenPosted_def queryDatabase_def split: option.splits list.splits)

lemma publish_skip:
  assumes "publish env candidate w = (None, w')"
  shows "quiet w w'"
  using assms
  by (auto simp: publish_def quiet_def unchanged_def
      split: prod.splits bool.splits option.splits if_splits
      dest!: hasBeenPosted_quiet)

lemma publish_outcomes:
  assumes "publish env candidate w = (Some ended, w')"
  shows "ended = Written \<or> (\<exists>err. ended = WriteFailed err)"
  using assms
  by (auto simp: publish_def split: prod.splits bool.splits option.splits if_splits)

lemma publish_failed:
  assumes "publish env candidate w = (Some (WriteFailed err), w')"
  shows "tables w' = tables w \<and> last_created_txt w' = last_created_txt w
         \<and> writeFile_calls w' = writeFile_calls w \<and> examined w' = examined w"
proof -
  from assms obtain data category thread w1 w2
    where guard: "hasBeenPosted env (message data) w = (False, w1)"
      and ins: "insertMessage env data w1 = (Some err, w2)"
      and w': "w' = logger (Info_PostedAt category thread) w2"
    by (auto simp: publish_def split: prod.splits bool.splits option.splits if_splits)
  from hasBeenPosted_quiet [OF guard] insertMessage_failed [OF ins] w' show ?thesis
    by (simp add: quiet_def unchanged_def)
qed

lemma publish_written:
  assumes "publish env (data, category, thread) w = (Some Written, w')"
  shows "examined w' = examined w"
    and "created data = InvalidDate \<Longrightarrow>
           last_created_txt w' = last_created_txt w \<and> writeFile_calls w' = writeFile_calls w"
    and "created data = Date tm \<Longrightarrow>
           last_created_txt w' = Some (format_athens env tm)
           \<and> writeFile_calls w' = writeFile_calls w @ [format_athens env tm]"
proof -
  from assms obtain w1 w2 where guard: "hasBeenPosted env (message data) w = (False, w1)"
    and ins: "insertMessage env data w1 = (None, w2)"
    and w': "w' = logger (Info_PostedAt category thread) w2"
    by (auto simp: publish_def split: prod.splits bool.splits option.splits if_splits)
  from hasBeenPosted_quiet [OF guard] have q: "unchanged w w1" "examined w1 = examined w"
    by (simp_all add: quiet_def)
  from insertMessage_committed(2) [OF ins] q w' show "examined w' = examined w"
    by simp
  show "last_created_txt w' = last_created_txt w \<and> writeFile_calls w' = writeFile_calls w"
    if "created data = InvalidDate"
    using insertMessage_committed(3) [OF ins that] q w' by (simp add: unchanged_def)
  show "last_created_txt w' = Some (format_athens env tm)
        \<and> writeFile_calls w' = writeFile_calls w @ [format_athens env tm]"
    if "created data = Date tm"
    using insertMessage_committed(4) [OF ins that] q w' by (simp add: unchanged_def)
qed

lemma prepare_created:
  assumes "prepare env nextPost w = (Some (data, category, thread), w')"
  shows "created data = c_created nextPost"
  using assms
  by (auto simp: prepare_def Let_def split: prod.splits option.splits)

lemma attempt_skip:
  assumes "attempt env nextPost w = (None, w')"
  shows "quiet w w'"
  using assms
  by (auto simp: attempt_def split: prod.splits option.splits
      dest!: prepare_quiet publish_skip elim: quiet_trans)

lemma attempt_outcomes:
  assumes "attempt env nextPost w = (Some ended, w')"
  shows "ended = Written \<or> (\<exists>err. ended = WriteFailed err)"
  using assms
  by (auto simp: attempt_def split: prod.splits option.splits dest: publish_outcomes)

lemma attempt_failed:
  assumes "attempt env nextPost w = (Some (WriteFailed err), w')"
  shows "tables w' = tables w \<and> last_created_txt w' = last_created_txt w
         \<and> writeFile_calls w' = writeFile_calls w \<and> examined w' = examined w"
  using assms
  by (auto simp: attempt_def quiet_def unchanged_def split: prod.splits option.splits
      dest!: prepare_quiet publish_failed)

lemma attempt_written:
  assumes "attempt env nextPost w = (Some Written, w')"
  shows "examined w' = examined w"
    and "c_created nextPost = InvalidDate \<Longrightarrow>
           last_created_txt w' = last_created_txt w \<and> writeFile_calls w' = writeFile_calls w"
    and "c_created nextPost = Date tm \<Longrightarrow>
           last_created_txt w' = Some (format_athens env tm)
           \<and> writeFile_calls w' = writeFile_calls w @ [format_athens env tm]"
proof -
  from assms obtain data category thread w1
    where prep: "prepare env nextPost w = (Some (data, category, thread), w1)"
      and pub: "publish env (data, category, thread) w1 = (Some Written, w')"
    by (auto simp: attempt_def split: prod.splits option.splits)
  from prepare_quiet [OF prep] have q: "unchanged w w1" "examined w1 = examined w"
    by (simp_all add: quiet_def)
  note c = prepare_created [OF prep]
  from publish_written(1) [OF pub] q show "examined w' = examined w"
    by simp
  show "last_created_txt w' = last_created_txt w \<and> writeFile_calls w' = writeFile_calls w"
    if "c_created nextPost = InvalidDate"
    using publish_written(2) [OF pub] that c q by (simp add: unchanged_def)
  show "last_created_txt w' = Some (format_athens env tm)
        \<and> writeFile_calls w' = writeFile_calls w @ [format_athens env tm]"
    if "c_created nextPost = Date tm"
    using publish_written(3) [OF pub] that c q by (simp add: unchanged_def)
qed

text \<open>The five ways one call of \<open>processPost\<close> can go.\<close>

lemma processPost_cases:
  assumes "processPost env bound depth w = (ended, w')"
  obtains
    (deep) "depth > MAX_RECURSION" "ended = MaxRecursionReached"
      "w' = logger Info_MaxRecursion
              (if depth mod 100 = 0 then logger (Info_RecursionDepth depth) w else w)"
  | (idle) w1 where "depth \<le> MAX_RECURSION"
      "getNextPost env bound (if depth mod 100 = 0 then logger (Info_RecursionDepth depth) w else w)
         = (None, w1)"
      "ended = NoNextPost" "w' = logger Info_NoNextPost w1"
  | (tried) nextPost w1 where "depth \<le> MAX_RECURSION"
      "getNextPost env bound (if depth mod 100 = 0 then logger (Info_RecursionDepth depth) w else w)
         = (Some nextPost, w1)"
      "attempt env nextPost
         (logger (Console_NextPost (c_id nextPost) (c_created nextPost) (c_title nextPost)) w1)
         = (Some ended, w')"
  | (threw) nextPost w1 where "depth \<le> MAX_RECURSION"
      "getNextPost env bound (if depth mod 100 = 0 then logger (Info_RecursionDepth depth) w else w)
         = (Some nextPost, w1)"
      "attempt env nextPost
         (logger (Console_NextPost (c_id nextPost) (c_created nextPost) (c_title nextPost)) w1)
         = (None, w')"
      "formatDate env (c_created nextPost) = None" "ended = Threw"
  | (skipped) nextPost w1 w2 next_bound where "depth \<le> MAX_RECURSION"
      "getNextPost env bound (if depth mod 100 = 0 then logger (Info_RecursionDepth depth) w else w)
         = (Some nextPost, w1)"
      "attempt env nextPost
         (logger (Console_NextPost (c_id nextPost) (c_created nextPost) (c_title nextPost)) w1)
         = (None, w2)"
      "formatDate env (c_created nextPost) = Some next_bound"
      "processPost env next_bound (Suc depth) w2 = (ended, w')"
proof (cases "depth > MAX_RECURSION")
  case True
  with assms that(1) show ?thesis
    by (simp add: processPost.simps [of env bound depth w] Let_def)
next
  case False
  then have le: "depth \<le> MAX_RECURSION" by simp
  let ?w0 = "if depth mod 100 = 0 then logger (Info_RecursionDepth depth) w else w"
  obtain r w1 where g: "getNextPost env bound ?w0 = (r, w1)"
    by (cases "getNextPost env bound ?w0")
  show ?thesis
  proof (cases r)
    case None
    with assms False g that(2) [OF le, of w1] show ?thesis
      by (simp add: processPost.simps [of env bound depth w] Let_def)
  next
    case (Some nextPost)
    let ?w1 = "logger (Console_NextPost (c_id nextPost) (c_created nextPost) (c_title nextPost)) w1"
    obtain a w2 where at: "attempt env nextPost ?w1 = (a, w2)"
      by (cases "attempt env nextPost ?w1")
    from assms False g Some at have run:
      "(case a of
          Some ended \<Rightarrow> (ended, w2)
        | None \<Rightarrow> (case formatDate env (c_created nextPost) of
                     None \<Rightarrow> (Threw, w2)
                   | Some next_created \<Rightarrow> processPost env next_created (depth + 1) w2))
       = (ended, w')"
      by (simp add: processPost.simps [of env bound depth w] Let_def)
    show ?thesis
    proof (cases a)
      case (Some e)
      with run at g \<open>r = Some nextPost\<close> that(3) [OF le, of nextPost w1] show ?thesis
        by simp
    next
      case None
      show ?thesis
      proof (cases "formatDate env (c_created nextPost)")
        case fNone: None
        with run None at g \<open>r = Some nextPost\<close> that(4) [OF le, of nextPost w1] show ?thesis
          by simp
      next
        case (Some next_bound)
        with run None at g \<open>r = Some nextPost\<close> that(5) [OF le, of nextPost w1 w2 next_bound]
        show ?thesis
          by simp
      qed
    qed
  qed
qed

lemma enter_quiet:
  "quiet w (if depth mod 100 = 0 then logger (Info_RecursionDepth depth) w else w)"
  by (simp add: quiet_def unchanged_def)

lemma fetched_quiet:
  assumes "getNextPost env bound (if depth mod 100 = 0 then logger (Info_RecursionDepth depth) w else w)
             = (r, w1)"
  shows "unchanged w w1" and "examined w1 = examined w"
    and "unchanged w (logger (Console_NextPost i d t) w1)"
    and "examined (logger (Console_NextPost i d t) w1) = Suc (examined w)"
proof -
  from quiet_trans [OF enter_quiet getNextPost_quiet [OF assms]] have "quiet w w1" .
  then show "unchanged w w1" and "examined w1 = examined w"
    and "unchanged w (logger (Console_NextPost i d t) w1)"
    and "examined (logger (Console_NextPost i d t) w1) = Suc (examined w)"
    by (simp_all add: quiet_def unchanged_def)
qed

lemma fetched_row:
  assumes "getNextPost env bound (if depth mod 100 = 0 then logger (Info_RecursionDepth depth) w else w)
             = (Some row, w1)"
  shows "\<exists>rows. select_next_post env (view w) bound = Some (row # rows)"
  using getNextPost_row [OF assms] by (simp split: if_splits)

lemma insertMessage_commits:
  assumes "insertMessage env data w = (None, w')"
  obtains messageId w7 where "insertMessage_statements env data w = Inr (messageId, w7)"
    and "tables w' = view w7" and "transaction w' = None"
proof -
  from assms obtain messageId w7 where st: "insertMessage_statements env data w = Inr (messageId, w7)"
    and w': "w' = logger (Info_Inserted messageId) (setLastProcessedDate env (created data) (commit w7))"
    by (auto simp: insertMessage_def split: sum.splits prod.splits)
  from insertMessage_statements_in_transaction [of w env data] st
  obtain t where "transaction w7 = Some t"
    by (auto simp: thrown_or_done_in_transaction_def in_transaction_def)
  with w' have "tables w' = view w7" and "transaction w' = None"
    by (simp_all add: commit_def view_def setLastProcessedDate_def writeFile_def logger_def
        split: jsdate.splits)
  with st that show ?thesis
    by blast
qed

lemma attempt_written_candidate:
  assumes "attempt env nextPost w = (Some Written, w')"
  obtains data category thread w2 w3 messageId w7
  where "prepare env nextPost w = (Some (data, category, thread), w2)"
    and "hasBeenPosted env (message data) w2 = (False, w3)"
    and "insertMessage_statements env data w3 = Inr (messageId, w7)"
    and "tables w' = view w7" and "transaction w' = None"
proof -
  from assms obtain data category thread w2
    where prep: "prepare env nextPost w = (Some (data, category, thread), w2)"
      and pub: "publish env (data, category, thread) w2 = (Some Written, w')"
    by (auto simp: attempt_def split: prod.splits option.splits)
  from pub obtain w3 w4 where guard: "hasBeenPosted env (message data) w2 = (False, w3)"
    and ins: "insertMessage env data w3 = (None, w4)"
    and w': "w' = logger (Info_PostedAt category thread) w4"
    by (auto simp: publish_def split: prod.splits bool.splits option.splits if_splits)
  from ins obtain messageId w7 where "insertMessage_statements env data w3 = Inr (messageId, w7)"
    and "tables w4 = view w7" and "transaction w4 = None"
    by (rule insertMessage_commits)
  with prep guard w' that show ?thesis
    by simp
qed

text \<open>
  What a run of \<open>processPost\<close> does to the file. A run that does not end with a post
  leaves it alone. A run that ends with a post has skipped some \<open>n\<close> items, and in the
  call it reached it fetched an item, composed the message from it, got the answer
  false from the guard, ran the seven statements and committed; the file then holds
  the formatted creation time of that item, written once.
\<close>

lemma processPost_trace:
  "processPost env bound depth w = (ended, w') \<Longrightarrow>
     (ended \<noteq> Written \<longrightarrow>
        writeFile_calls w' = writeFile_calls w \<and> last_created_txt w' = last_created_txt w)
     \<and> (ended = Written \<longrightarrow>
        (\<exists>n b v nextPost data w3 messageId w7.
            depth + n \<le> MAX_RECURSION
            \<and> skipped_to env bound depth n w = Some (b, v)
            \<and> candidate_of env b (depth + n) v = Some (nextPost, data, w3)
            \<and> insertMessage_statements env data w3 = Inr (messageId, w7)
            \<and> tables w' = view w7 \<and> transaction w' = None
            \<and> (case c_created nextPost of
                  InvalidDate \<Rightarrow>
                    writeFile_calls w' = writeFile_calls w \<and> last_created_txt w' = last_created_txt w
                | Date tm \<Rightarrow>
                    writeFile_calls w' = writeFile_calls w @ [format_athens env tm]
                    \<and> last_created_txt w' = Some (format_athens env tm))))"
proof (induction "Suc MAX_RECURSION - depth" arbitrary: bound depth w rule: less_induct)
  case less
  from less.prems show ?case
  proof (cases rule: processPost_cases)
    case deep
    then show ?thesis by (simp split: if_splits)
  next
    case (idle w1)
    from fetched_quiet(1) [OF idle(2)] idle(3,4) show ?thesis
      by (simp add: unchanged_def)
  next
    case (tried nextPost w1)
    let ?w1 = "logger (Console_NextPost (c_id nextPost) (c_created nextPost) (c_title nextPost)) w1"
    note q = fetched_quiet(3) [OF tried(2), of "c_id nextPost" "c_created nextPost" "c_title nextPost"]
    from attempt_outcomes [OF tried(3)] show ?thesis
    proof
      assume written: "ended = Written"
      with tried(3) have at: "attempt env nextPost ?w1 = (Some Written, w')"
        by simp
      from at obtain data category thread w2 w3 messageId w7
        where prep: "prepare env nextPost ?w1 = (Some (data, category, thread), w2)"
          and guard: "hasBeenPosted env (message data) w2 = (False, w3)"
          and st: "insertMessage_statements env data w3 = Inr (messageId, w7)"
          and committed: "tables w' = view w7" "transaction w' = None"
        by (rule attempt_written_candidate)
      from tried(2) prep guard have cand: "candidate_of env bound (depth + 0) w = Some (nextPost, data, w3)"
        by (simp add: candidate_of_def)
      have wrote: "case c_created nextPost of
            InvalidDate \<Rightarrow>
              writeFile_calls w' = writeFile_calls w \<and> last_created_txt w' = last_created_txt w
          | Date tm \<Rightarrow>
              writeFile_calls w' = writeFile_calls w @ [format_athens env tm]
              \<and> last_created_txt w' = Some (format_athens env tm)"
        using attempt_written(2,3) [OF at] q
        by (simp add: unchanged_def split: jsdate.splits)
      from tried(1) have "depth + 0 \<le> MAX_RECURSION"
        by simp
      moreover have "skipped_to env bound depth 0 w = Some (bound, w)"
        by simp
      ultimately show ?thesis
        using written cand st committed wrote by blast
    next
      assume "\<exists>err. ended = WriteFailed err"
      then obtain err where "ended = WriteFailed err" ..
      with attempt_failed [OF tried(3) [unfolded this]] q show ?thesis
        by (simp add: unchanged_def)
    qed
  next
    case (threw nextPost w1)
    from attempt_skip [OF threw(3)] threw(5)
      fetched_quiet(3) [OF threw(2), of "c_id nextPost" "c_created nextPost" "c_title nextPost"]
    show ?thesis
      by (simp add: quiet_def unchanged_def)
  next
    case (skipped nextPost w1 w2 next_bound)
    from attempt_skip [OF skipped(3)]
      fetched_quiet(3) [OF skipped(2), of "c_id nextPost" "c_created nextPost" "c_title nextPost"]
    have same: "writeFile_calls w2 = writeFile_calls w" "last_created_txt w2 = last_created_txt w"
      by (simp_all add: quiet_def unchanged_def)
    from skipped(1) have "Suc MAX_RECURSION - Suc depth < Suc MAX_RECURSION - depth"
      by simp
    note ih = less.hyps [OF this skipped(5)]
    show ?thesis
    proof (rule conjI; rule impI)
      assume "ended \<noteq> Written"
      with ih same
      show "writeFile_calls w' = writeFile_calls w \<and> last_created_txt w' = last_created_txt w"
        by simp
    next
      assume "ended = Written"
      with ih obtain n b v candidate data w3 messageId w7
        where n: "Suc depth + n \<le> MAX_RECURSION"
          and sk: "skipped_to env next_bound (Suc depth) n w2 = Some (b, v)"
          and cand: "candidate_of env b (Suc depth + n) v = Some (candidate, data, w3)"
          and st: "insertMessage_statements env data w3 = Inr (messageId, w7)"
          and committed: "tables w' = view w7" "transaction w' = None"
          and wrote: "case c_created candidate of
              InvalidDate \<Rightarrow>
                writeFile_calls w' = writeFile_calls w2 \<and> last_created_txt w' = last_created_txt w2
            | Date tm \<Rightarrow>
                writeFile_calls w' = writeFile_calls w2 @ [format_athens env tm]
                \<and> last_created_txt w' = Some (format_athens env tm)"
        by blast
      from skipped(2,3,4) sk have "skipped_to env bound depth (Suc n) w = Some (b, v)"
        by simp
      moreover from n have "depth + Suc n \<le> MAX_RECURSION"
        by simp
      moreover from cand have "candidate_of env b (depth + Suc n) v = Some (candidate, data, w3)"
        by simp
      moreover from wrote same have "case c_created candidate of
              InvalidDate \<Rightarrow>
                writeFile_calls w' = writeFile_calls w \<and> last_created_txt w' = last_created_txt w
            | Date tm \<Rightarrow>
                writeFile_calls w' = writeFile_calls w @ [format_athens env tm]
                \<and> last_created_txt w' = Some (format_athens env tm)"
        by (simp split: jsdate.splits)
      ultimately show "\<exists>n b v nextPost data w3 messageId w7.
            depth + n \<le> MAX_RECURSION
            \<and> skipped_to env bound depth n w = Some (b, v)
            \<and> candidate_of env b (depth + n) v = Some (nextPost, data, w3)
            \<and> insertMessage_statements env data w3 = Inr (messageId, w7)
            \<and> tables w' = view w7 \<and> transaction w' = None
            \<and> (case c_created nextPost of
                  InvalidDate \<Rightarrow>
                    writeFile_calls w' = writeFile_calls w \<and> last_created_txt w' = last_created_txt w
                | Date tm \<Rightarrow>
                    writeFile_calls w' = writeFile_calls w @ [format_athens env tm]
                    \<and> last_created_txt w' = Some (format_athens env tm))"
        using st committed by blast
    qed
  qed
qed

text \<open>
  Where the bound of a call comes from: under the two conditions on the query and on
  the time zone, the bound only grows over the skips, and the item a call fetches has a
  formatted creation time after the bound of the call.
\<close>

lemma fetched_later:
  assumes "where_created_after env column_text" and "printed_no_earlier env column_text"
    and "getNextPost env bound (if depth mod 100 = 0 then logger (Info_RecursionDepth depth) w else w)
           = (Some nextPost, w1)"
    and "c_created nextPost = Date tm"
  shows "bound < format_athens env tm"
proof -
  from fetched_row [OF assms(3)] obtain rows
    where "select_next_post env (view w) bound = Some (nextPost # rows)" ..
  with assms(1,4) have "bound < column_text tm"
    unfolding where_created_after_def by blast
  also from assms(2) have "column_text tm \<le> format_athens env tm"
    by (simp add: printed_no_earlier_def)
  finally show ?thesis .
qed

lemma skipped_to_later:
  assumes "where_created_after env column_text" and "printed_no_earlier env column_text"
  shows "skipped_to env bound depth n w = Some (b, v) \<Longrightarrow> bound \<le> b"
proof (induction n arbitrary: bound depth w)
  case 0
  then show ?case by simp
next
  case (Suc n)
  from Suc.prems obtain nextPost w1 w2 next_bound
    where fetch: "getNextPost env bound
        (if depth mod 100 = 0 then logger (Info_RecursionDepth depth) w else w) = (Some nextPost, w1)"
      and fmt: "formatDate env (c_created nextPost) = Some next_bound"
      and rest: "skipped_to env next_bound (Suc depth) n w2 = Some (b, v)"
    by (auto split: prod.splits option.splits)
  from fmt obtain tm where tm: "c_created nextPost = Date tm" and nb: "next_bound = format_athens env tm"
    by (auto simp: formatDate_def split: jsdate.splits)
  from fetched_later [OF assms fetch tm] nb have "bound < next_bound"
    by simp
  also from Suc.IH [OF rest] have "next_bound \<le> b" .
  finally show ?case
    by simp
qed

lemma candidate_later:
  assumes "where_created_after env column_text" and "printed_no_earlier env column_text"
    and "candidate_of env bound depth w = Some (nextPost, data, w3)"
    and "c_created nextPost = Date tm"
  shows "bound < format_athens env tm"
proof -
  from assms(3) obtain w1
    where "getNextPost env bound
        (if depth mod 100 = 0 then logger (Info_RecursionDepth depth) w else w) = (Some nextPost, w1)"
    by (auto simp: candidate_of_def split: prod.splits option.splits bool.splits)
  from fetched_later [OF assms(1,2) this assms(4)] show ?thesis .
qed

text \<open>
  C8, as the source has it. A run of \<open>main\<close> that does not end with a post leaves
  \<open>last_created.txt\<close> alone. A run that ends with a post has skipped \<open>n\<close> items and then,
  in the call at depth \<open>n\<close>, fetched the item \<open>nextPost\<close>, composed \<open>data\<close> from it and
  passed the Duplicate Guard; the seven statements of \<open>insertMessage\<close> have passed and
  their working copy is committed. The file is then written exactly once, with the
  creation time of that item as \<open>formatDate\<close> prints it (Europe/Athens,
  \<open>yyyy-MM-dd HH:mm:ss\<close>); an item with an invalid date is posted without a write. The
  value written is later than the value read at the start of the run when the rows of the
  query have a column text after their bound and \<open>formatDate\<close> prints no instant earlier
  than its column text.
\<close>

theorem watermark_written_once_after_commit:
  assumes "main env w = (ended, w')"
  shows "(ended \<noteq> Some Written \<longrightarrow>
        writeFile_calls w' = writeFile_calls w \<and> last_created_txt w' = last_created_txt w)
     \<and> (ended = Some Written \<longrightarrow>
        (\<exists>lastCreated n bound v nextPost data w3 messageId w7.
            getLastProcessedDate w = Some lastCreated
            \<and> n \<le> MAX_RECURSION
            \<and> skipped_to env lastCreated 0 n w = Some (bound, v)
            \<and> candidate_of env bound n v = Some (nextPost, data, w3)
            \<and> insertMessage_statements env data w3 = Inr (messageId, w7)
            \<and> tables w' = view w7 \<and> transaction w' = None
            \<and> (case c_created nextPost of
                  InvalidDate \<Rightarrow>
                    writeFile_calls w' = writeFile_calls w \<and> last_created_txt w' = last_created_txt w
                | Date tm \<Rightarrow>
                    writeFile_calls w' = writeFile_calls w @ [format_athens env tm]
                    \<and> last_created_txt w' = Some (format_athens env tm)
                    \<and> (where_created_after env column_text \<longrightarrow> printed_no_earlier env column_text
                         \<longrightarrow> lastCreated < format_athens env tm))))"
proof (cases "falsy (USER_ID env) \<or> falsy (USER_NAME env) \<or> \<not> connects env
              \<or> getLastProcessedDate w = None \<or> getLastProcessedDate w = Some []")
  case True
  with assms show ?thesis
    by (auto simp: main_def split: if_splits option.splits)
next
  case False
  then obtain lastCreated where lc: "getLastProcessedDate w = Some lastCreated" "lastCreated \<noteq> []"
    by auto
  obtain e w1 where run: "processPost env lastCreated 0 w = (e, w1)"
    by (cases "processPost env lastCreated 0 w")
  from False lc run assms have w': "writeFile_calls w' = writeFile_calls w1"
      "last_created_txt w' = last_created_txt w1" "tables w' = tables w1"
      "transaction w' = transaction w1" and e: "ended = Some e"
    by (auto simp: main_def split: if_splits outcome.splits)
  note trace = processPost_trace [OF run]
  show ?thesis
  proof (rule conjI; rule impI)
    assume "ended \<noteq> Some Written"
    with e trace w'
    show "writeFile_calls w' = writeFile_calls w \<and> last_created_txt w' = last_created_txt w"
      by simp
  next
    assume "ended = Some Written"
    with e trace obtain n bound v nextPost data w3 messageId w7
      where n: "0 + n \<le> MAX_RECURSION"
        and sk: "skipped_to env lastCreated 0 n w = Some (bound, v)"
        and cand: "candidate_of env bound (0 + n) v = Some (nextPost, data, w3)"
        and st: "insertMessage_statements env data w3 = Inr (messageId, w7)"
        and committed: "tables w1 = view w7" "transaction w1 = None"
        and wrote: "case c_created nextPost of
            InvalidDate \<Rightarrow>
              writeFile_calls w1 = writeFile_calls w \<and> last_created_txt w1 = last_created_txt w
          | Date tm \<Rightarrow>
              writeFile_calls w1 = writeFile_calls w @ [format_athens env tm]
              \<and> last_created_txt w1 = Some (format_athens env tm)"
      by auto
    have later: "lastCreated < format_athens env tm"
      if "c_created nextPost = Date tm" "where_created_after env column_text"
        "printed_no_earlier env column_text" for tm
    proof -
      from skipped_to_later [OF that(2,3) sk] have "lastCreated \<le> bound" .
      also from candidate_later [OF that(2,3) cand that(1)] have "bound < format_athens env tm" .
      finally show ?thesis .
    qed
    from wrote later w' have "case c_created nextPost of
          InvalidDate \<Rightarrow>
            writeFile_calls w' = writeFile_calls w \<and> last_created_txt w' = last_created_txt w
        | Date tm \<Rightarrow>
            writeFile_calls w' = writeFile_calls w @ [format_athens env tm]
            \<and> last_created_txt w' = Some (format_athens env tm)
            \<and> (where_created_after env column_text \<longrightarrow> printed_no_earlier env column_text
                 \<longrightarrow> lastCreated < format_athens env tm)"
      by (simp split: jsdate.splits)
    with lc(1) n sk cand st committed w'
    show "\<exists>lastCreated n bound v nextPost data w3 messageId w7.
            getLastProcessedDate w = Some lastCreated
            \<and> n \<le> MAX_RECURSION
            \<and> skipped_to env lastCreated 0 n w = Some (bound, v)
            \<and> candidate_of env bound n v = Some (nextPost, data, w3)
            \<and> insertMessage_statements env data w3 = Inr (messageId, w7)
            \<and> tables w' = view w7 \<and> transaction w' = None
            \<and> (case c_created nextPost of
                  InvalidDate \<Rightarrow>
                    writeFile_calls w' = writeFile_calls w \<and> last_created_txt w' = last_created_txt w
                | Date tm \<Rightarrow>
                    writeFile_calls w' = writeFile_calls w @ [format_athens env tm]
                    \<and> last_created_txt w' = Some (format_athens env tm)
                    \<and> (where_created_after env column_text \<longrightarrow> printed_no_earlier env column_text
                         \<longrightarrow> lastCreated < format_athens env tm))"
      by (intro exI [of _ lastCreated] exI [of _ n] exI [of _ bound] exI [of _ v]
          exI [of _ nextPost] exI [of _ data] exI [of _ w3] exI [of _ messageId] exI [of _ w7]) simp
  qed
qed

section \<open>The depth guard\<close>

text \<open>
  A run whose next items are all skipped ends at the guard, with nothing changed but
  the log, after it has fetched one item at every depth from where it is up to
  \<open>MAX_RECURSION\<close>.
\<close>

lemma processPost_skips:
  "skips env bound depth (Suc MAX_RECURSION - depth) w \<Longrightarrow>
   processPost env bound depth w = (ended, w') \<Longrightarrow>
   ended = MaxRecursionReached \<and> unchanged w w'
   \<and> examined w' = examined w + (Suc MAX_RECURSION - depth)"
proof (induction "Suc MAX_RECURSION - depth" arbitrary: bound depth w rule: less_induct)
  case less
  from less.prems(2) show ?case
  proof (cases rule: processPost_cases)
    case deep
    then show ?thesis by (simp add: unchanged_def split: if_splits)
  next
    case (idle w1)
    from idle(1) have "Suc MAX_RECURSION - depth = Suc (MAX_RECURSION - depth)"
      by simp
    with less.prems(1) idle(2) show ?thesis by simp
  next
    case (tried nextPost w1)
    from tried(1) have "Suc MAX_RECURSION - depth = Suc (MAX_RECURSION - depth)"
      by simp
    with less.prems(1) tried(2,3) show ?thesis by simp
  next
    case (threw nextPost w1)
    from threw(1) have "Suc MAX_RECURSION - depth = Suc (MAX_RECURSION - depth)"
      by simp
    with less.prems(1) threw(2,3,4) show ?thesis by simp
  next
    case (skipped nextPost w1 w2 next_bound)
    from skipped(1) have n: "Suc MAX_RECURSION - depth = Suc (MAX_RECURSION - depth)"
      and n': "MAX_RECURSION - depth = Suc MAX_RECURSION - Suc depth"
      and smaller: "Suc MAX_RECURSION - Suc depth < Suc MAX_RECURSION - depth"
      by simp_all
    from less.prems(1) skipped(2,3,4) have "skips env next_bound (Suc depth) (MAX_RECURSION - depth) w2"
      by (simp add: n)
    then have "skips env next_bound (Suc depth) (Suc MAX_RECURSION - Suc depth) w2"
      by (simp only: n')
    from less.hyps [OF smaller this skipped(5)]
    have rest: "ended = MaxRecursionReached" "unchanged w2 w'"
      "examined w' = examined w2 + (Suc MAX_RECURSION - Suc depth)"
      by simp_all
    from attempt_skip [OF skipped(3)]
      fetched_quiet(3,4) [OF skipped(2), of "c_id nextPost" "c_created nextPost" "c_title nextPost"]
    have "unchanged w w2" "examined w2 = Suc (examined w)"
      by (simp_all add: quiet_def unchanged_def)
    with rest skipped(1) show ?thesis
      by (simp add: unchanged_def)
  qed
qed

text \<open>The backlog: every article of it is fetched in its turn and skipped.\<close>

lemma seconds_of_demo_format:
  assumes "0 \<le> k" and "k < 3600"
  shows "seconds_of (demo_format (1704060000000 + 1000 * k)) = k"
proof -
  define m where "m = k div 60 mod 60"
  define s where "s = k mod 60"
  have digits: "m div 10 * 10 + m mod 10 = m" "s div 10 * 10 + s mod 10 = s"
    by simp_all
  from assms have "k div 60 < 60" by simp
  with assms have "m = k div 60"
    by (simp add: m_def)
  then have k: "m * 60 + s = k"
    by (simp add: s_def)
  have "demo_format (1704060000000 + 1000 * k)
          = js ''2024-01-01 00:'' @ [48 + m div 10, 48 + m mod 10] @ js '':''
            @ [48 + s div 10, 48 + s mod 10]"
    by (simp add: demo_format_def two_digits_def m_def s_def)
  then have "seconds_of (demo_format (1704060000000 + 1000 * k))
          = (m div 10 * 10 + m mod 10) * 60 + (s div 10 * 10 + s mod 10)"
    by (simp add: seconds_of_def js_def)
  with digits k show ?thesis
    by simp
qed

lemma demo_format_midnight:
  "demo_format 1704060000000 = js ''2024-01-01 00:00:00''"
  by (simp add: demo_format_def two_digits_def js_def)

lemma no_thread_link:
  "urlMatch (js ''see the forum topic'') = None"
  by code_simp

lemma no_paragraphs:
  "demo_load (js ''see the forum topic'') = []"
  by code_simp

lemma backlog_attempt:
  "attempt backlog_env (backlog_article k) w = (None, logger Info_SkipNoUrl (w\<lparr>lastIndex := 0\<rparr>))"
  by (simp add: attempt_def prepare_def backlog_env_def backlog_article_def update_segment_def
      updateElements_of_def no_thread_link no_paragraphs Let_def)

lemma backlog_fetch:
  assumes "transaction w = None" and "seconds_of bound < int (tables w)"
  shows "getNextPost backlog_env bound w
           = (Some (backlog_article (seconds_of bound)), logger Info_QuerySuccessful w)"
  using assms by (simp add: getNextPost_def queryDatabase_def view_def backlog_env_def)

lemma backlog_skips:
  "transaction w = None \<Longrightarrow> 0 \<le> k \<Longrightarrow> k + int n \<le> int (tables w) \<Longrightarrow> k + int n < 3600 \<Longrightarrow>
   skips backlog_env (demo_format (1704060000000 + 1000 * k)) depth n w"
proof (induction n arbitrary: k depth w)
  case 0
  show ?case by simp
next
  case (Suc n)
  let ?bound = "demo_format (1704060000000 + 1000 * k)"
  let ?w0 = "if depth mod 100 = 0 then logger (Info_RecursionDepth depth) w else w"
  let ?w1 = "logger Info_QuerySuccessful ?w0"
  let ?row = "backlog_article k"
  let ?w2 = "logger Info_SkipNoUrl
               ((logger (Console_NextPost (c_id ?row) (c_created ?row) (c_title ?row)) ?w1)\<lparr>lastIndex := 0\<rparr>)"
  from Suc.prems have k: "seconds_of ?bound = k"
    by (intro seconds_of_demo_format) simp_all
  from Suc.prems have w0: "transaction ?w0 = None" "seconds_of ?bound < int (tables ?w0)"
    by (simp_all add: k)
  from backlog_fetch [OF w0] have fetch: "getNextPost backlog_env ?bound ?w0 = (Some ?row, ?w1)"
    by (simp only: k)
  have next_bound: "formatDate backlog_env (c_created ?row)
      = Some (demo_format (1704060000000 + 1000 * (k + 1)))"
    by (simp add: formatDate_def backlog_article_def backlog_env_def algebra_simps)
  from Suc.prems have "skips backlog_env (demo_format (1704060000000 + 1000 * (k + 1))) (Suc depth) n ?w2"
    by (intro Suc.IH) simp_all
  with fetch next_bound show ?case
    by (simp add: backlog_attempt)
qed

text \<open>
  C7. The call at depth 100 is not where the run ends. With a backlog in which the 101
  items that a run meets are all skipped, the run fetches 101 items, those of the
  depths 0 to 100, and the guard \<open>depth > MAX_RECURSION\<close> ends it in the call at depth
  101.
\<close>

theorem depth_100_is_still_processed:
  "skips backlog_env (js ''2024-01-01 00:00:00'') 0 101 (start 105)
   \<and> fst (processPost backlog_env (js ''2024-01-01 00:00:00'') 0 (start 105)) = MaxRecursionReached
   \<and> examined (snd (processPost backlog_env (js ''2024-01-01 00:00:00'') 0 (start 105))) = 101
   \<and> \<not> examined (snd (processPost backlog_env (js ''2024-01-01 00:00:00'') 0 (start 105))) \<le> 100"
proof -
  have sk: "skips backlog_env (js ''2024-01-01 00:00:00'') 0 101 (start 105)"
    using backlog_skips [of "start 105" 0 101 0] demo_format_midnight
    by (simp add: start_def)
  then have "skips backlog_env (js ''2024-01-01 00:00:00'') 0 (Suc MAX_RECURSION - 0) (start 105)"
    by (simp add: MAX_RECURSION_def)
  from processPost_skips [OF this, of "fst (processPost backlog_env (js ''2024-01-01 00:00:00'') 0 (start 105))"
      "snd (processPost backlog_env (js ''2024-01-01 00:00:00'') 0 (start 105))"] sk
  show ?thesis
    by (simp add: MAX_RECURSION_def start_def examined_def)
qed

text \<open>
  C7, as the source has it. When the 101 items that a run meets, one at each depth from
  0 to 100, are all skipped, the run ends at the guard in the call at depth 101: it has
  fetched 101 items, inserted nothing into the tables and neither written nor changed
  \<open>last_created.txt\<close>. A call at depth 101 returns at once.
\<close>

theorem depth_guard_stops_after_101_items:
  assumes "skips env bound 0 101 w" and "processPost env bound 0 w = (ended, w')"
  shows "ended = MaxRecursionReached \<and> examined w' = examined w + 101
     \<and> tables w' = tables w \<and> transaction w' = transaction w
     \<and> last_created_txt w' = last_created_txt w \<and> writeFile_calls w' = writeFile_calls w
     \<and> processPost env later_bound 101 v = (MaxRecursionReached, logger Info_MaxRecursion v)"
proof -
  from assms(1) have "skips env bound 0 (Suc MAX_RECURSION - 0) w"
    by (simp add: MAX_RECURSION_def)
  from processPost_skips [OF this assms(2)]
  have "ended = MaxRecursionReached \<and> unchanged w w' \<and> examined w' = examined w + 101"
    by (simp add: MAX_RECURSION_def)
  moreover have "processPost env later_bound 101 v = (MaxRecursionReached, logger Info_MaxRecursion v)"
    by (simp add: processPost.simps [of env later_bound 101 v] MAX_RECURSION_def)
  ultimately show ?thesis
    by (simp add: unchanged_def)
qed

theorem depth_guard_stops_after_101_items_witness:
  "skips backlog_env (js ''2024-01-01 00:00:00'') 0 101 (start 105)
   \<and> fst (processPost backlog_env (js ''2024-01-01 00:00:00'') 0 (start 105)) = MaxRecursionReached
   \<and> examined (snd (processPost backlog_env (js ''2024-01-01 00:00:00'') 0 (start 105))) = 101
   \<and> tables (snd (processPost backlog_env (js ''2024-01-01 00:00:00'') 0 (start 105))) = 105
   \<and> last_created_txt (snd (processPost backlog_env (js ''2024-01-01 00:00:00'') 0 (start 105)))
       = Some (js ''2024-01-01 00:00:00'' @ [10])
   \<and> writeFile_calls (snd (processPost backlog_env (js ''2024-01-01 00:00:00'') 0 (start 105))) = []"
proof -
  have sk: "skips backlog_env (js ''2024-01-01 00:00:00'') 0 101 (start 105)"
    using backlog_skips [of "start 105" 0 101 0] demo_format_midnight
    by (simp add: start_def)
  have run: "processPost backlog_env (js ''2024-01-01 00:00:00'') 0 (start 105)
      = (fst (processPost backlog_env (js ''2024-01-01 00:00:00'') 0 (start 105)),
         snd (processPost backlog_env (js ''2024-01-01 00:00:00'') 0 (start 105)))"
    by simp
  from depth_guard_stops_after_101_items [OF sk run] sk show ?thesis
    by (simp add: start_def examined_def)
qed

section \<open>Duplicate Guard: properties\<close>

lemma publish_on_match:
  assumes "select_posted env (view w) (Number (USER_ID env)) (message data) = Some (row # rows)"
  shows "publish env (data, category, thread) w
           = (None, logger Info_AlreadyPosted (logger Info_QuerySuccessful w))"
  using assms by (simp add: publish_def hasBeenPosted_result)

lemma publish_on_fault:
  assumes "select_posted env (view w) (Number (USER_ID env)) (message data) = None"
  shows "publish env (data, category, thread) w
           = (case insertMessage env data (logger Error_Thrown (logger Error_Querying w)) of
                (None, w2) \<Rightarrow> (Some Written, logger (Info_PostedAt category thread) w2)
              | (Some err, w2) \<Rightarrow> (Some (WriteFailed err), logger (Info_PostedAt category thread) w2))"
  using assms by (simp add: publish_def hasBeenPosted_result)

text \<open>
  C2, as the source has it. Before \<open>insertMessage\<close> the guard asks the database for a
  message with exactly the composed text by the poster. When the query returns a row,
  nothing is inserted and \<open>processPost\<close> calls itself for the next candidate, with the
  formatted creation time of this one and \<open>depth + 1\<close>. \<open>insertMessage\<close> runs only when
  the query returned no row or was rejected: a message that storage already holds is
  kept out as far as that query answers.
\<close>

theorem duplicate_guard_skips_on_match:
  "(select_posted env (view w) (Number (USER_ID env)) (message data) = Some (row # rows) \<longrightarrow>
      publish env (data, category, thread) w
        = (None, logger Info_AlreadyPosted (logger Info_QuerySuccessful w)))
   \<and> (depth \<le> MAX_RECURSION \<longrightarrow>
       getNextPost env bound (if depth mod 100 = 0 then logger (Info_RecursionDepth depth) w0 else w0)
         = (Some nextPost, w1) \<longrightarrow>
       prepare env nextPost
         (logger (Console_NextPost (c_id nextPost) (c_created nextPost) (c_title nextPost)) w1)
         = (Some (data, category, thread), w) \<longrightarrow>
       select_posted env (view w) (Number (USER_ID env)) (message data) = Some (row # rows) \<longrightarrow>
       formatDate env (c_created nextPost) = Some next_bound \<longrightarrow>
       processPost env bound depth w0
         = processPost env next_bound (Suc depth)
             (logger Info_AlreadyPosted (logger Info_QuerySuccessful w)))
   \<and> (fst (publish env2 (data2, category2, thread2) w2) \<noteq> None \<longrightarrow>
       select_posted env2 (view w2) (Number (USER_ID env2)) (message data2) = None
       \<or> select_posted env2 (view w2) (Number (USER_ID env2)) (message data2) = Some [])"
proof (intro conjI impI)
  assume "select_posted env (view w) (Number (USER_ID env)) (message data) = Some (row # rows)"
  then show "publish env (data, category, thread) w
      = (None, logger Info_AlreadyPosted (logger Info_QuerySuccessful w))"
    by (rule publish_on_match)
next
  assume le: "depth \<le> MAX_RECURSION"
    and fetch: "getNextPost env bound
        (if depth mod 100 = 0 then logger (Info_RecursionDepth depth) w0 else w0) = (Some nextPost, w1)"
    and prep: "prepare env nextPost
        (logger (Console_NextPost (c_id nextPost) (c_created nextPost) (c_title nextPost)) w1)
        = (Some (data, category, thread), w)"
    and match: "select_posted env (view w) (Number (USER_ID env)) (message data) = Some (row # rows)"
    and fmt: "formatDate env (c_created nextPost) = Some next_bound"
  from prep publish_on_match [OF match, of category thread]
  have "attempt env nextPost
      (logger (Console_NextPost (c_id nextPost) (c_created nextPost) (c_title nextPost)) w1)
      = (None, logger Info_AlreadyPosted (logger Info_QuerySuccessful w))"
    by (simp add: attempt_def)
  with le fetch fmt show "processPost env bound depth w0
      = processPost env next_bound (Suc depth) (logger Info_AlreadyPosted (logger Info_QuerySuccessful w))"
    by (simp add: processPost.simps [of env bound depth w0] Let_def)
next
  assume "fst (publish env2 (data2, category2, thread2) w2) \<noteq> None"
  then show "select_posted env2 (view w2) (Number (USER_ID env2)) (message data2) = None
      \<or> select_posted env2 (view w2) (Number (USER_ID env2)) (message data2) = Some []"
    by (auto simp: publish_def hasBeenPosted_result split: option.splits list.splits)
qed

text \<open>
  C10. When the driver rejects the query of the guard, \<open>queryDatabase\<close> logs the error
  and returns nothing, \<open>hasBeenPosted\<close> answers false, and the pipeline goes on to
  \<open>insertMessage\<close> with the composed message. The answer is the same false that an
  empty result gives.
\<close>

theorem guard_fault_reads_as_not_posted:
  "(select_posted env (view w) (Number (USER_ID env)) (message data) = None \<longrightarrow>
      hasBeenPosted env (message data) w = (False, logger Error_Thrown (logger Error_Querying w))
      \<and> publish env (data, category, thread) w
          = (case insertMessage env data (logger Error_Thrown (logger Error_Querying w)) of
               (None, w2) \<Rightarrow> (Some Written, logger (Info_PostedAt category thread) w2)
             | (Some err, w2) \<Rightarrow> (Some (WriteFailed err), logger (Info_PostedAt category thread) w2)))
   \<and> (select_posted env2 (view w2) (Number (USER_ID env2)) msg = Some [] \<longrightarrow>
       hasBeenPosted env2 msg w2 = (False, logger Info_QuerySuccessful w2))"
  using publish_on_fault [of env w data category thread]
  by (simp add: hasBeenPosted_result)

theorem guard_fault_reads_as_not_posted_witness:
  "select_posted (demo_env True) (view (start forum_posted)) (Number (USER_ID (demo_env True)))
      (message article_data) = None
   \<and> hasBeenPosted (demo_env True) (message article_data) (start forum_posted)
       = (False, logger Error_Thrown (logger Error_Querying (start forum_posted)))
   \<and> publish (demo_env True) (article_data, js ''7'', js ''20'') (start forum_posted)
       = (case insertMessage (demo_env True) article_data
                 (logger Error_Thrown (logger Error_Querying (start forum_posted))) of
            (None, w2) \<Rightarrow> (Some Written, logger (Info_PostedAt (js ''7'') (js ''20'')) w2)
          | (Some err, w2) \<Rightarrow> (Some (WriteFailed err), logger (Info_PostedAt (js ''7'') (js ''20'')) w2))
   \<and> select_posted (demo_env False) (view (start forum)) (Number (USER_ID (demo_env False)))
       (message article_data) = Some []
   \<and> hasBeenPosted (demo_env False) (message article_data) (start forum)
       = (False, logger Info_QuerySuccessful (start forum))"
proof -
  have fault: "select_posted (demo_env True) (view (start forum_posted))
      (Number (USER_ID (demo_env True))) (message article_data) = None"
    by (simp add: demo_env_def)
  have empty: "select_posted (demo_env False) (view (start forum))
      (Number (USER_ID (demo_env False))) (message article_data) = Some []"
    by (simp add: demo_env_def demo_posted_def view_def start_def forum_def)
  from guard_fault_reads_as_not_posted [of "demo_env True" "start forum_posted" article_data
      "js ''7''" "js ''20''" "demo_env False" "start forum" "message article_data"] fault empty
  show ?thesis
    by simp
qed

section \<open>Concrete runs\<close>

text \<open>How the pieces of a run that posts its first candidate fit together.\<close>

lemma processPost_posts_first_candidate:
  assumes fetch: "getNextPost env bound (logger (Info_RecursionDepth 0) w) = (Some nextPost, w1)"
    and prep: "prepare env nextPost
        (logger (Console_NextPost (c_id nextPost) (c_created nextPost) (c_title nextPost)) w1)
        = (Some (data, category, thread), w2)"
    and guard: "hasBeenPosted env (message data) w2 = (False, w3)"
    and ins: "fst (insertMessage env data w3) = None"
  shows "processPost env bound 0 w
           = (Written, logger (Info_PostedAt category thread) (snd (insertMessage env data w3)))"
proof -
  from ins obtain w4 where w4: "insertMessage env data w3 = (None, w4)"
    by (cases "insertMessage env data w3") simp
  with guard have "publish env (data, category, thread) w2
      = (Some Written, logger (Info_PostedAt category thread) w4)"
    by (simp add: publish_def)
  with prep have "attempt env nextPost
      (logger (Console_NextPost (c_id nextPost) (c_created nextPost) (c_title nextPost)) w1)
      = (Some Written, logger (Info_PostedAt category thread) w4)"
    by (simp add: attempt_def)
  with fetch have "processPost env bound 0 w
      = (Written, logger (Info_PostedAt category thread) w4)"
    by (simp add: processPost.simps [of env bound 0 w] MAX_RECURSION_def Let_def)
  with w4 show ?thesis
    by simp
qed

lemma main_runs:
  assumes "\<not> falsy (USER_ID env)" and "\<not> falsy (USER_NAME env)" and "connects env"
    and "getLastProcessedDate w = Some lastCreated" and "lastCreated \<noteq> []"
    and "processPost env lastCreated 0 w = (Written, w')"
  shows "main env w = (Some Written, logger Info_Disconnected w')"
  using assms by (simp add: main_def)

lemma demo_env_fields:
  "USER_ID (demo_env g) = Some (js ''42'')"
  "USER_NAME (demo_env g) = Some (js ''newsbot'')"
  "connects (demo_env g)"
  "select_next_post (demo_env g) = demo_next_post"
  "select_posted (demo_env g) = (\<lambda>s uid msg. if g then None else Some (demo_posted s uid msg))"
  "format_athens (demo_env g) = demo_format"
  by (simp_all add: demo_env_def)

lemma demo_env_configured:
  "\<not> falsy (USER_ID (demo_env g))" "\<not> falsy (USER_NAME (demo_env g))"
  by (simp_all add: demo_env_fields falsy_def js_def)

lemma start_reads:
  "getLastProcessedDate (start s) = Some (js ''2024-01-01 00:00:00'')"
  "js ''2024-01-01 00:00:00'' \<noteq> []"
proof -
  have "trim (js ''2024-01-01 00:00:00'' @ [10]) = js ''2024-01-01 00:00:00''"
    by code_simp
  then show "getLastProcessedDate (start s) = Some (js ''2024-01-01 00:00:00'')"
    by (simp add: getLastProcessedDate_def start_def)
  show "js ''2024-01-01 00:00:00'' \<noteq> []"
    by (simp add: js_def)
qed

lemma world_views [simp]:
  "view (start s) = s"
  "view (fetched_world s) = s"
  "view (prepared_world s) = s"
  by (simp_all add: prepared_world_def fetched_world_def start_def view_def logger_def)

lemma article_is_next:
  "demo_next_post forum (js ''2024-01-01 00:00:00'') = Some [article]"
  "demo_next_post forum_posted (js ''2024-01-01 00:00:00'') = Some [article]"
  by code_simp+

lemma article_fetched:
  assumes "demo_next_post s (js ''2024-01-01 00:00:00'') = Some [article]"
  shows "getNextPost (demo_env g) (js ''2024-01-01 00:00:00'') (logger (Info_RecursionDepth 0) (start s))
           = (Some article, logger Info_QuerySuccessful (logger (Info_RecursionDepth 0) (start s)))"
  using assms by (simp add: getNextPost_def queryDatabase_def demo_env_fields)

lemma article_prepared:
  "prepare (demo_env False) article (fetched_world forum)
     = (Some (article_data, js ''7'', js ''20''), prepared_world forum)"
  "prepare (demo_env False) article (fetched_world forum_posted)
     = (Some (article_data, js ''7'', js ''20''), prepared_world forum_posted)"
  "prepare (demo_env True) article (fetched_world forum_posted)
     = (Some (article_data, js ''7'', js ''20''), prepared_world forum_posted)"
  by code_simp+

lemma article_copies:
  "demo_posted forum (Number (Some (js ''42''))) article_message = []"
  "demo_posted forum_posted (Number (Some (js ''42''))) article_message
     = [\<lparr>mesid = 1, message_text = article_message\<rparr>]"
  "posted_copies forum_posted (Number (Some (js ''42''))) article_message = 1"
  by code_simp+

lemma article_inserted:
  "case insertMessage (demo_env False) article_data (logger Info_QuerySuccessful (prepared_world forum)) of
     (thrown, w) \<Rightarrow> thrown = None \<and> tables w = forum_posted"
  by code_simp

lemma article_inserted_again:
  "case insertMessage (demo_env True) article_data
          (logger Error_Thrown (logger Error_Querying (prepared_world forum_posted))) of
     (thrown, w) \<Rightarrow>
       thrown = None \<and> posted_copies (tables w) (Number (Some (js ''42''))) article_message = 2"
  by code_simp

lemma article_time:
  "demo_format 1704060030000 = js ''2024-01-01 00:00:30''"
  "js ''2024-01-01 00:00:00'' < js ''2024-01-01 00:00:30''"
  "created article_data = Date 1704060030000"
  "c_created article = Date 1704060030000"
  "message article_data = article_message"
  by code_simp+

lemma found_row:
  assumes "(case find P xs of None \<Rightarrow> [] | Some r \<Rightarrow> [r]) = row # rows"
  shows "P row"
  using assms by (auto split: option.splits simp: find_Some_iff)

lemma demo_query_after:
  "where_created_after (demo_env g) demo_format"
  unfolding where_created_after_def
proof (intro allI impI)
  fix t bound row rows tm
  let ?later = "\<lambda>row. case c_created row of
        InvalidDate \<Rightarrow> False
      | Date t \<Rightarrow> if bound < demo_format t
                  then js_includes (js ''forum topic'') (c_fulltext row) else False"
  assume "select_next_post (demo_env g) t bound = Some (row # rows)"
    and tm: "c_created row = Date tm"
  then have "(case find ?later (jos_content t) of None \<Rightarrow> [] | Some r \<Rightarrow> [r]) = row # rows"
    by (simp only: demo_env_fields demo_next_post_def option.inject)
  then have "?later row"
    by (rule found_row)
  with tm show "bound < demo_format tm"
    by (simp split: if_splits)
qed

lemma demo_printed_no_earlier:
  "printed_no_earlier (demo_env g) demo_format"
  by (simp add: printed_no_earlier_def demo_env_fields)

lemma first_run:
  "main (demo_env False) (start forum)
     = (Some Written,
        logger Info_Disconnected
          (logger (Info_PostedAt (js ''7'') (js ''20''))
            (snd (insertMessage (demo_env False) article_data
                   (logger Info_QuerySuccessful (prepared_world forum))))))"
proof -
  let ?w3 = "logger Info_QuerySuccessful (prepared_world forum)"
  have guard: "hasBeenPosted (demo_env False) (message article_data) (prepared_world forum) = (False, ?w3)"
    by (simp add: hasBeenPosted_result demo_env_fields article_copies article_time)
  from article_inserted have ins: "fst (insertMessage (demo_env False) article_data ?w3) = None"
    by (simp split: prod.splits)
  note fetch = article_fetched [OF article_is_next(1), of False]
  note prep = article_prepared(1) [unfolded fetched_world_def]
  from main_runs [OF demo_env_configured demo_env_fields(3) start_reads
      processPost_posts_first_candidate [OF fetch prep guard ins]]
  show ?thesis .
qed

lemma second_run:
  "main (demo_env True) (start forum_posted)
     = (Some Written,
        logger Info_Disconnected
          (logger (Info_PostedAt (js ''7'') (js ''20''))
            (snd (insertMessage (demo_env True) article_data
                   (logger Error_Thrown (logger Error_Querying (prepared_world forum_posted)))))))"
proof -
  let ?w3 = "logger Error_Thrown (logger Error_Querying (prepared_world forum_posted))"
  have guard: "hasBeenPosted (demo_env True) (message article_data) (prepared_world forum_posted)
      = (False, ?w3)"
    by (simp add: hasBeenPosted_result demo_env_fields)
  from article_inserted_again have ins: "fst (insertMessage (demo_env True) article_data ?w3) = None"
    by (simp split: prod.splits)
  note fetch = article_fetched [OF article_is_next(2), of True]
  note prep = article_prepared(3) [unfolded fetched_world_def]
  from main_runs [OF demo_env_configured demo_env_fields(3) start_reads
      processPost_posts_first_candidate [OF fetch prep guard ins]]
  show ?thesis .
qed

text \<open>
  C2. Two rows with the same text by the same poster can both exist. The forum already
  holds the post of the example article, \<open>last_created.txt\<close> still holds the older date,
  and the driver rejects the query of the guard: the run of \<open>main\<close> composes the same
  text, the guard answers false, and the writer inserts the text a second time.
\<close>

theorem duplicate_inserted_when_guard_query_fails:
  "posted_copies forum_posted (Number (Some (js ''42''))) article_message = 1
   \<and> fst (main (demo_env True) (start forum_posted)) = Some Written
   \<and> posted_copies (tables (snd (main (demo_env True) (start forum_posted))))
        (Number (Some (js ''42''))) article_message = 2"
  using article_inserted_again article_copies(3)
  by (simp add: second_run split: prod.splits)

theorem duplicate_guard_skips_on_match_witness:
  "select_posted (demo_env False) (view (prepared_world forum_posted))
      (Number (USER_ID (demo_env False))) (message article_data)
     = Some [\<lparr>mesid = 1, message_text = article_message\<rparr>]
   \<and> publish (demo_env False) (article_data, js ''7'', js ''20'') (prepared_world forum_posted)
       = (None, logger Info_AlreadyPosted (logger Info_QuerySuccessful (prepared_world forum_posted)))
   \<and> processPost (demo_env False) (js ''2024-01-01 00:00:00'') 0 (start forum_posted)
       = processPost (demo_env False) (js ''2024-01-01 00:00:30'') (Suc 0)
           (logger Info_AlreadyPosted (logger Info_QuerySuccessful (prepared_world forum_posted)))
   \<and> fst (publish (demo_env False) (article_data, js ''7'', js ''20'') (prepared_world forum))
       = Some Written
   \<and> select_posted (demo_env False) (view (prepared_world forum))
        (Number (USER_ID (demo_env False))) (message article_data) = Some []"
proof -
  have match: "select_posted (demo_env False) (view (prepared_world forum_posted))
      (Number (USER_ID (demo_env False))) (message article_data)
      = Some (\<lparr>mesid = 1, message_text = article_message\<rparr> # [])"
    by (simp add: demo_env_fields article_copies article_time)
  have depth: "(0::nat) \<le> MAX_RECURSION"
    by simp
  have fetch: "getNextPost (demo_env False) (js ''2024-01-01 00:00:00'')
      (if (0::nat) mod 100 = 0 then logger (Info_RecursionDepth 0) (start forum_posted)
       else start forum_posted)
      = (Some article, logger Info_QuerySuccessful (logger (Info_RecursionDepth 0) (start forum_posted)))"
    using article_fetched [OF article_is_next(2), of False] by simp
  note prep = article_prepared(2) [unfolded fetched_world_def]
  have fmt: "formatDate (demo_env False) (c_created article) = Some (js ''2024-01-01 00:00:30'')"
    by (simp add: formatDate_def demo_env_fields article_time)
  have none: "select_posted (demo_env False) (view (prepared_world forum))
      (Number (USER_ID (demo_env False))) (message article_data) = Some []"
    by (simp add: demo_env_fields article_copies article_time)
  from article_inserted none
  have written: "fst (publish (demo_env False) (article_data, js ''7'', js ''20'') (prepared_world forum))
      = Some Written"
    by (simp add: publish_def hasBeenPosted_result split: prod.splits)
  then have ran: "fst (publish (demo_env False) (article_data, js ''7'', js ''20'') (prepared_world forum))
      \<noteq> None"
    by simp
  from duplicate_guard_skips_on_match
    [where env = "demo_env False" and w = "prepared_world forum_posted" and data = article_data
      and row = "\<lparr>mesid = 1, message_text = article_message\<rparr>" and rows = "[]"
      and category = "js ''7''" and thread = "js ''20''" and depth = 0
      and bound = "js ''2024-01-01 00:00:00''" and ?w0.0 = "start forum_posted"
      and nextPost = article
      and ?w1.0 = "logger Info_QuerySuccessful (logger (Info_RecursionDepth 0) (start forum_posted))"
      and next_bound = "js ''2024-01-01 00:00:30''"
      and ?env2.0 = "demo_env False" and ?data2.0 = article_data and ?category2.0 = "js ''7''"
      and ?thread2.0 = "js ''20''" and ?w2.0 = "prepared_world forum"]
    match depth fetch prep fmt ran written none
  show ?thesis
    by simp
qed

text \<open>
  The run of \<open>main\<close> on the example forum, read by a process in Europe/Athens: it skips
  nothing, posts the article and writes \<open>2024-01-01 00:00:30\<close>, the formatted creation
  time of the article, after the \<open>2024-01-01 00:00:00\<close> it read.
\<close>

theorem watermark_written_once_after_commit_witness:
  "fst (main (demo_env False) (start forum)) = Some Written
   \<and> getLastProcessedDate (start forum) = Some (js ''2024-01-01 00:00:00'')
   \<and> skipped_to (demo_env False) (js ''2024-01-01 00:00:00'') 0 0 (start forum)
       = Some (js ''2024-01-01 00:00:00'', start forum)
   \<and> candidate_of (demo_env False) (js ''2024-01-01 00:00:00'') 0 (start forum)
       = Some (article, article_data, logger Info_QuerySuccessful (prepared_world forum))
   \<and> c_created article = Date 1704060030000
   \<and> demo_format 1704060030000 = js ''2024-01-01 00:00:30''
   \<and> writeFile_calls (start forum) = []
   \<and> writeFile_calls (snd (main (demo_env False) (start forum))) = [js ''2024-01-01 00:00:30'']
   \<and> last_created_txt (snd (main (demo_env False) (start forum))) = Some (js ''2024-01-01 00:00:30'')
   \<and> where_created_after (demo_env False) demo_format
   \<and> printed_no_earlier (demo_env False) demo_format
   \<and> js ''2024-01-01 00:00:00'' < js ''2024-01-01 00:00:30''"
proof -
  let ?w3 = "logger Info_QuerySuccessful (prepared_world forum)"
  obtain w4 where ins: "insertMessage (demo_env False) article_data ?w3 = (None, w4)"
    using article_inserted by (cases "insertMessage (demo_env False) article_data ?w3") simp
  have before: "writeFile_calls ?w3 = []" "writeFile_calls (start forum) = []"
    by (simp_all add: prepared_world_def fetched_world_def start_def)
  from insertMessage_committed(4) [OF ins article_time(3)] before
  have written: "last_created_txt w4 = Some (js ''2024-01-01 00:00:30'')"
    "writeFile_calls w4 = [js ''2024-01-01 00:00:30'']"
    by (simp_all add: demo_env_fields article_time)
  have run: "main (demo_env False) (start forum)
      = (Some Written, logger Info_Disconnected (logger (Info_PostedAt (js ''7'') (js ''20'')) w4))"
    using first_run ins by simp
  have guard: "hasBeenPosted (demo_env False) (message article_data) (prepared_world forum) = (False, ?w3)"
    by (simp add: hasBeenPosted_result demo_env_fields article_copies article_time)
  have cand: "candidate_of (demo_env False) (js ''2024-01-01 00:00:00'') 0 (start forum)
      = Some (article, article_data, ?w3)"
    using article_fetched [OF article_is_next(1), of False] article_prepared(1) guard
    by (simp add: candidate_of_def fetched_world_def)
  from watermark_written_once_after_commit [OF run, of demo_format, THEN conjunct2, THEN mp, OF refl]
    written before start_reads(1) [of forum] demo_query_after [of False] demo_printed_no_earlier [of False]
  have later: "js ''2024-01-01 00:00:00'' < js ''2024-01-01 00:00:30''"
    by (auto simp: demo_env_fields split: jsdate.splits) (metis jsdate.exhaust)
  from run written before start_reads(1) [of forum] cand article_time(1,4) later
    demo_query_after [of False] demo_printed_no_earlier [of False]
  show ?thesis
    by simp
qed

text \<open>
  The same forum read by the process seven hours ahead of Athens. The query returns
  rows whose column text lies after the bound, as its \<open>WHERE\<close> clause says.
\<close>

lemma east_env_fields:
  "USER_ID east_env = Some (js ''42'')"
  "USER_NAME east_env = Some (js ''newsbot'')"
  "connects east_env"
  "select_next_post east_env = east_next_post"
  "select_posted east_env = (\<lambda>s uid msg. Some (demo_posted s uid msg))"
  "format_athens east_env = demo_format"
  by (simp_all add: east_env_def demo_env_def)

lemma east_query_after:
  "where_created_after east_env east_print"
  unfolding where_created_after_def
proof (intro allI impI)
  fix t bound row rows tm
  let ?later = "\<lambda>row. case c_created row of
        InvalidDate \<Rightarrow> False
      | Date t \<Rightarrow> if bound < east_print t
                  then js_includes (js ''forum topic'') (c_fulltext row) else False"
  assume "select_next_post east_env t bound = Some (row # rows)"
    and tm: "c_created row = Date tm"
  then have "(case find ?later (jos_content t) of None \<Rightarrow> [] | Some r \<Rightarrow> [r]) = row # rows"
    by (simp only: east_env_fields east_next_post_def option.inject)
  then have "?later row"
    by (rule found_row)
  with tm show "bound < east_print tm"
    by (simp split: if_splits)
qed

lemma late_start_reads:
  "getLastProcessedDate (late_start s) = Some (js ''2024-01-01 06:00:00'')"
  "js ''2024-01-01 06:00:00'' \<noteq> []"
proof -
  have "trim (js ''2024-01-01 06:00:00'') = js ''2024-01-01 06:00:00''"
    by code_simp
  then show "getLastProcessedDate (late_start s) = Some (js ''2024-01-01 06:00:00'')"
    by (simp add: getLastProcessedDate_def late_start_def start_def)
  show "js ''2024-01-01 06:00:00'' \<noteq> []"
    by (simp add: js_def)
qed

lemma late_views [simp]:
  "view (late_start s) = s"
  "view late_fetched = forum"
  "view late_prepared = forum"
  by (simp_all add: late_prepared_def late_fetched_def late_start_def start_def view_def logger_def)

lemma east_article:
  "east_next_post forum (js ''2024-01-01 06:00:00'') = Some [article]"
  "east_print 1704060030000 = js ''2024-01-01 07:00:30''"
  "js ''2024-01-01 06:00:00'' < js ''2024-01-01 07:00:30''"
  "js ''2024-01-01 00:00:30'' < js ''2024-01-01 06:00:00''"
  by code_simp+

lemma east_prepared:
  "prepare east_env article late_fetched = (Some (article_data, js ''7'', js ''20''), late_prepared)"
  by code_simp

lemma east_inserted:
  "case insertMessage east_env article_data (logger Info_QuerySuccessful late_prepared) of
     (thrown, w) \<Rightarrow> thrown = None"
  by code_simp

lemma east_run:
  "main east_env (late_start forum)
     = (Some Written,
        logger Info_Disconnected
          (logger (Info_PostedAt (js ''7'') (js ''20''))
            (snd (insertMessage east_env article_data (logger Info_QuerySuccessful late_prepared)))))"
proof -
  let ?w3 = "logger Info_QuerySuccessful late_prepared"
  have configured: "\<not> falsy (USER_ID east_env)" "\<not> falsy (USER_NAME east_env)"
    by (simp_all add: east_env_fields falsy_def js_def)
  have fetch: "getNextPost east_env (js ''2024-01-01 06:00:00'')
      (logger (Info_RecursionDepth 0) (late_start forum))
      = (Some article, logger Info_QuerySuccessful (logger (Info_RecursionDepth 0) (late_start forum)))"
    by (simp add: getNextPost_def queryDatabase_def east_env_fields east_article)
  note prep = east_prepared [unfolded late_fetched_def]
  have guard: "hasBeenPosted east_env (message article_data) late_prepared = (False, ?w3)"
    by (simp add: hasBeenPosted_result east_env_fields article_copies article_time)
  from east_inserted have ins: "fst (insertMessage east_env article_data ?w3) = None"
    by (simp split: prod.splits)
  from main_runs [OF configured east_env_fields(3) late_start_reads
      processPost_posts_first_candidate [OF fetch prep guard ins]]
  show ?thesis .
qed

text \<open>
  C8. The value written is not always later than the value read. The file holds
  \<open>2024-01-01 06:00:00\<close>; the article has the column text \<open>2024-01-01 07:00:30\<close>, which
  lies after it, so the query returns it; the driver of the process seven hours ahead
  of Athens builds the instant 2023-12-31T22:00:30Z from it, and \<open>formatDate\<close> prints
  that instant in Europe/Athens. The run posts the article and writes
  \<open>2024-01-01 00:00:30\<close>, which lies before the value it read.
\<close>

theorem watermark_moves_back_east_of_athens:
  "getLastProcessedDate (late_start forum) = Some (js ''2024-01-01 06:00:00'')
   \<and> east_next_post forum (js ''2024-01-01 06:00:00'') = Some [article]
   \<and> c_created article = Date 1704060030000
   \<and> east_print 1704060030000 = js ''2024-01-01 07:00:30''
   \<and> js ''2024-01-01 06:00:00'' < js ''2024-01-01 07:00:30''
   \<and> fst (main east_env (late_start forum)) = Some Written
   \<and> writeFile_calls (snd (main east_env (late_start forum))) = [js ''2024-01-01 00:00:30'']
   \<and> last_created_txt (snd (main east_env (late_start forum))) = Some (js ''2024-01-01 00:00:30'')
   \<and> js ''2024-01-01 00:00:30'' < js ''2024-01-01 06:00:00''
   \<and> \<not> js ''2024-01-01 06:00:00'' < js ''2024-01-01 00:00:30''"
proof -
  let ?w3 = "logger Info_QuerySuccessful late_prepared"
  obtain w4 where ins: "insertMessage east_env article_data ?w3 = (None, w4)"
    using east_inserted by (cases "insertMessage east_env article_data ?w3") simp
  have before: "writeFile_calls ?w3 = []"
    by (simp add: late_prepared_def late_fetched_def late_start_def start_def)
  from insertMessage_committed(4) [OF ins article_time(3)] before
  have written: "last_created_txt w4 = Some (js ''2024-01-01 00:00:30'')"
    "writeFile_calls w4 = [js ''2024-01-01 00:00:30'']"
    by (simp_all add: east_env_fields article_time)
  have run: "main east_env (late_start forum)
      = (Some Written, logger Info_Disconnected (logger (Info_PostedAt (js ''7'') (js ''20'')) w4))"
    using east_run ins by simp
  from east_article(4) have "\<not> js ''2024-01-01 06:00:00'' < js ''2024-01-01 00:00:30''"
    by simp
  with run written late_start_reads(1) [of forum] east_article article_time(4)
  show ?thesis
    by simp
qed

text \<open>
  The writer on the example forum with a driver that rejects the statement \<open>k\<close>, for each
  of the seven: the statements before it pass and the writer ends in its \<open>catch\<close>. With
  the example driver all seven pass.
\<close>

lemma rejected_1:
  "statement_fails (rejecting_env 1) (first_statement (rejecting_env 1) article_data) (beginTransaction (start forum))"
  by code_simp

lemma rejected_2:
  "(case step (rejecting_env 2) (first_statement (rejecting_env 2) article_data) MessageInsertFailed (beginTransaction (start forum)) of
      Inl thrown \<Rightarrow> False
    | Inr (res1, w1) \<Rightarrow>
   statement_fails (rejecting_env 2) (InsertMessageText (insertId res1) (message article_data)) w1)"
  by code_simp

lemma rejected_3:
  "(case step (rejecting_env 3) (first_statement (rejecting_env 3) article_data) MessageInsertFailed (beginTransaction (start forum)) of
      Inl thrown \<Rightarrow> False
    | Inr (res1, w1) \<Rightarrow>
   (case step (rejecting_env 3) (InsertMessageText (insertId res1) (message article_data)) MessageTextInsertFailed w1 of
      Inl thrown \<Rightarrow> False
    | Inr (res2, w2) \<Rightarrow>
   statement_fails (rejecting_env 3) (UpdateUserPosts (userId article_data)) w2))"
  by code_simp

lemma rejected_4:
  "(case step (rejecting_env 4) (first_statement (rejecting_env 4) article_data) MessageInsertFailed (beginTransaction (start forum)) of
      Inl thrown \<Rightarrow> False
    | Inr (res1, w1) \<Rightarrow>
   (case step (rejecting_env 4) (InsertMessageText (insertId res1) (message article_data)) MessageTextInsertFailed w1 of
      Inl thrown \<Rightarrow> False
    | Inr (res2, w2) \<Rightarrow>
   (case step (rejecting_env 4) (UpdateUserPosts (userId article_data)) UserPostCountUpdateFailed w2 of
      Inl thrown \<Rightarrow> False
    | Inr (res3, w3) \<Rightarrow>
   statement_fails (rejecting_env 4) (UpdateTopic (insertId res1) (now (rejecting_env 4) div 1000) (userId article_data) (name article_data) (threadId article_data)) w3)))"
  by code_simp

lemma rejected_5:
  "(case step (rejecting_env 5) (first_statement (rejecting_env 5) article_data) MessageInsertFailed (beginTransaction (start forum)) of
      Inl thrown \<Rightarrow> False
    | Inr (res1, w1) \<Rightarrow>
   (case step (rejecting_env 5) (InsertMessageText (insertId res1) (message article_data)) MessageTextInsertFailed w1 of
      Inl thrown \<Rightarrow> False
    | Inr (res2, w2) \<Rightarrow>
   (case step (rejecting_env 5) (UpdateUserPosts (userId article_data)) UserPostCountUpdateFailed w2 of
      Inl thrown \<Rightarrow> False
    | Inr (res3, w3) \<Rightarrow>
   (case step (rejecting_env 5) (UpdateTopic (insertId res1) (now (rejecting_env 5) div 1000) (userId article_data) (name article_data) (threadId article_data)) TopicMetadataUpdateFailed w3 of
      Inl thrown \<Rightarrow> False
    | Inr (res4, w4) \<Rightarrow>
   statement_fails (rejecting_env 5) (UpdateCategory (insertId res1) (now (rejecting_env 5) div 1000) (categoryId article_data)) w4))))"
  by code_simp

lemma rejected_6:
  "(case step (rejecting_env 6) (first_statement (rejecting_env 6) article_data) MessageInsertFailed (beginTransaction (start forum)) of
      Inl thrown \<Rightarrow> False
    | Inr (res1, w1) \<Rightarrow>
   (case step (rejecting_env 6) (InsertMessageText (insertId res1) (message article_data)) MessageTextInsertFailed w1 of
      Inl thrown \<Rightarrow> False
    | Inr (res2, w2) \<Rightarrow>
   (case step (rejecting_env 6) (UpdateUserPosts (userId article_data)) UserPostCountUpdateFailed w2 of
      Inl thrown \<Rightarrow> False
    | Inr (res3, w3) \<Rightarrow>
   (case step (rejecting_env 6) (UpdateTopic (insertId res1) (now (rejecting_env 6) div 1000) (userId article_data) (name article_data) (threadId article_data)) TopicMetadataUpdateFailed w3 of
      Inl thrown \<Rightarrow> False
    | Inr (res4, w4) \<Rightarrow>
   (case step (rejecting_env 6) (UpdateCategory (insertId res1) (now (rejecting_env 6) div 1000) (categoryId article_data)) CategoryMetadataUpdateFailed w4 of
      Inl thrown \<Rightarrow> False
    | Inr (res5, w5) \<Rightarrow>
   statement_fails (rejecting_env 6) (InsertActivity (userId article_data) (activityTitle (rejecting_env 6) article_data) (activityContent (rejecting_env 6) article_data (insertId res1)) (threadId article_data) (now (rejecting_env 6) div 1000)) w5)))))"
  by code_simp

lemma rejected_7:
  "(case step (rejecting_env 7) (first_statement (rejecting_env 7) article_data) MessageInsertFailed (beginTransaction (start forum)) of
      Inl thrown \<Rightarrow> False
    | Inr (res1, w1) \<Rightarrow>
   (case step (rejecting_env 7) (InsertMessageText (insertId res1) (message article_data)) MessageTextInsertFailed w1 of
      Inl thrown \<Rightarrow> False
    | Inr (res2, w2) \<Rightarrow>
   (case step (rejecting_env 7) (UpdateUserPosts (userId article_data)) UserPostCountUpdateFailed w2 of
      Inl thrown \<Rightarrow> False
    | Inr (res3, w3) \<Rightarrow>
   (case step (rejecting_env 7) (UpdateTopic (insertId res1) (now (rejecting_env 7) div 1000) (userId article_data) (name article_data) (threadId article_data)) TopicMetadataUpdateFailed w3 of
      Inl thrown \<Rightarrow> False
    | Inr (res4, w4) \<Rightarrow>
   (case step (rejecting_env 7) (UpdateCategory (insertId res1) (now (rejecting_env 7) div 1000) (categoryId article_data)) CategoryMetadataUpdateFailed w4 of
      Inl thrown \<Rightarrow> False
    | Inr (res5, w5) \<Rightarrow>
   (case step (rejecting_env 7) (InsertActivity (userId article_data) (activityTitle (rejecting_env 7) article_data) (activityContent (rejecting_env 7) article_data (insertId res1)) (threadId article_data) (now (rejecting_env 7) div 1000)) CommunityActivityInsertFailed w5 of
      Inl thrown \<Rightarrow> False
    | Inr (res6, w6) \<Rightarrow>
   statement_fails (rejecting_env 7) (UpdateActivityLikeId (insertId res6)) w6))))))"
  by code_simp

lemma all_seven_pass:
  "(case step (demo_env False) (first_statement (demo_env False) article_data) MessageInsertFailed (beginTransaction (start forum)) of
      Inl thrown \<Rightarrow> False
    | Inr (res1, w1) \<Rightarrow>
   (case step (demo_env False) (InsertMessageText (insertId res1) (message article_data)) MessageTextInsertFailed w1 of
      Inl thrown \<Rightarrow> False
    | Inr (res2, w2) \<Rightarrow>
   (case step (demo_env False) (UpdateUserPosts (userId article_data)) UserPostCountUpdateFailed w2 of
      Inl thrown \<Rightarrow> False
    | Inr (res3, w3) \<Rightarrow>
   (case step (demo_env False) (UpdateTopic (insertId res1) (now (demo_env False) div 1000) (userId article_data) (name article_data) (threadId article_data)) TopicMetadataUpdateFailed w3 of
      Inl thrown \<Rightarrow> False
    | Inr (res4, w4) \<Rightarrow>
   (case step (demo_env False) (UpdateCategory (insertId res1) (now (demo_env False) div 1000) (categoryId article_data)) CategoryMetadataUpdateFailed w4 of
      Inl thrown \<Rightarrow> False
    | Inr (res5, w5) \<Rightarrow>
   (case step (demo_env False) (InsertActivity (userId article_data) (activityTitle (demo_env False) article_data) (activityContent (demo_env False) article_data (insertId res1)) (threadId article_data) (now (demo_env False) div 1000)) CommunityActivityInsertFailed w5 of
      Inl thrown \<Rightarrow> False
    | Inr (res6, w6) \<Rightarrow>
   (case step (demo_env False) (UpdateActivityLikeId (insertId res6)) CommunityActivityLikeIdUpdateFailed w6 of
      Inl thrown \<Rightarrow> False
    | Inr (res7, w7) \<Rightarrow>
   True)))))))"
  by code_simp


lemma passes_cases:
  assumes "case r of Inl thrown \<Rightarrow> False | Inr (res, w) \<Rightarrow> P res w"
  obtains res w where "r = Inr (res, w)" and "P res w"
  using assms by (auto split: sum.splits)

text \<open>
  The writer on the forum without a row for the poster: the message and its text are
  inserted into the working copy of the transaction, the update of the post counter
  reports zero rows, and after the rollback the tables are those of the start.
\<close>

lemma writer_steps_without_user:
  "step (demo_env False) (first_statement (demo_env False) article_data) MessageInsertFailed
      (beginTransaction (start forum_without_user))
     = Inr (\<lparr>affectedRows = 1, insertId = 1\<rparr>, inside with_message [Info_QuerySuccessful])"
  "step (demo_env False) (InsertMessageText 1 (message article_data)) MessageTextInsertFailed
      (inside with_message [Info_QuerySuccessful])
     = Inr (\<lparr>affectedRows = 1, insertId = 0\<rparr>,
            inside with_message_text [Info_QuerySuccessful, Info_QuerySuccessful])"
  "queryDatabase_header (demo_env False) (UpdateUserPosts (userId article_data))
      (inside with_message_text [Info_QuerySuccessful, Info_QuerySuccessful])
     = (Some \<lparr>affectedRows = 0, insertId = 0\<rparr>,
        inside with_message_text [Info_QuerySuccessful, Info_QuerySuccessful, Info_QuerySuccessful])"
  "jos_kunena_messages with_message_text = [(1, Number (Some (js ''42'')), js ''Launch'')]"
  "jos_kunena_messages forum_without_user = []"
  by code_simp+


theorem writer_rolls_back_witness:
  "fst (insertMessage (rejecting_env 1) article_data (start forum)) = Some MessageInsertFailed
   \<and> tables (snd (insertMessage (rejecting_env 1) article_data (start forum))) = forum
   \<and> fst (insertMessage (rejecting_env 2) article_data (start forum)) = Some MessageTextInsertFailed
   \<and> tables (snd (insertMessage (rejecting_env 2) article_data (start forum))) = forum
   \<and> fst (insertMessage (rejecting_env 3) article_data (start forum)) = Some UserPostCountUpdateFailed
   \<and> tables (snd (insertMessage (rejecting_env 3) article_data (start forum))) = forum
   \<and> fst (insertMessage (rejecting_env 4) article_data (start forum)) = Some TopicMetadataUpdateFailed
   \<and> tables (snd (insertMessage (rejecting_env 4) article_data (start forum))) = forum
   \<and> fst (insertMessage (rejecting_env 5) article_data (start forum)) = Some CategoryMetadataUpdateFailed
   \<and> tables (snd (insertMessage (rejecting_env 5) article_data (start forum))) = forum
   \<and> fst (insertMessage (rejecting_env 6) article_data (start forum)) = Some CommunityActivityInsertFailed
   \<and> tables (snd (insertMessage (rejecting_env 6) article_data (start forum))) = forum
   \<and> fst (insertMessage (rejecting_env 7) article_data (start forum)) = Some CommunityActivityLikeIdUpdateFailed
   \<and> tables (snd (insertMessage (rejecting_env 7) article_data (start forum))) = forum
   \<and> fst (insertMessage (demo_env False) article_data (start forum)) = None
   \<and> fst (insertMessage (demo_env False) article_data (start forum_without_user))
       = Some UserPostCountUpdateFailed
   \<and> transaction (inside with_message_text [Info_QuerySuccessful, Info_QuerySuccessful])
       = Some with_message_text
   \<and> jos_kunena_messages with_message_text = [(1, Number (Some (js ''42'')), js ''Launch'')]
   \<and> tables (snd (insertMessage (demo_env False) article_data (start forum_without_user)))
       = forum_without_user
   \<and> jos_kunena_messages forum_without_user = []
   \<and> transaction (snd (insertMessage (demo_env False) article_data (start forum_without_user))) = None
   \<and> last_created_txt (snd (insertMessage (demo_env False) article_data (start forum_without_user)))
       = last_created_txt (start forum_without_user)
   \<and> writeFile_calls (snd (insertMessage (demo_env False) article_data (start forum_without_user))) = []"

proof -
  have rolled: "tables (snd (insertMessage env article_data (start s))) = s
      \<and> transaction (snd (insertMessage env article_data (start s))) = None
      \<and> last_created_txt (snd (insertMessage env article_data (start s))) = last_created_txt (start s)
      \<and> writeFile_calls (snd (insertMessage env article_data (start s))) = []"
    if "fst (insertMessage env article_data (start s)) = Some err" for env :: "store env" and s err
    using that writer_rolls_back [where env = env and data = article_data and w = "start s"
        and err = err and w' = "snd (insertMessage env article_data (start s))"]
    by (cases "insertMessage env article_data (start s)") (auto simp: start_def)
  note inst1 = writer_rolls_back [where env = "rejecting_env 1" and data = article_data and w = "start forum"]
  from rejected_1 inst1 have f1: "fst (insertMessage (rejecting_env 1) article_data (start forum)) = Some MessageInsertFailed"
    by blast
  note inst2 = writer_rolls_back [where env = "rejecting_env 2" and data = article_data and w = "start forum"]
  from rejected_2 have f2: "fst (insertMessage (rejecting_env 2) article_data (start forum)) = Some MessageTextInsertFailed"
    by (elim passes_cases) (use inst2 in blast)
  note inst3 = writer_rolls_back [where env = "rejecting_env 3" and data = article_data and w = "start forum"]
  from rejected_3 have f3: "fst (insertMessage (rejecting_env 3) article_data (start forum)) = Some UserPostCountUpdateFailed"
    by (elim passes_cases) (use inst3 in blast)
  note inst4 = writer_rolls_back [where env = "rejecting_env 4" and data = article_data and w = "start forum"]
  from rejected_4 have f4: "fst (insertMessage (rejecting_env 4) article_data (start forum)) = Some TopicMetadataUpdateFailed"
    by (elim passes_cases) (use inst4 in blast)
  note inst5 = writer_rolls_back [where env = "rejecting_env 5" and data = article_data and w = "start forum"]
  from rejected_5 have f5: "fst (insertMessage (rejecting_env 5) article_data (start forum)) = Some CategoryMetadataUpdateFailed"
    by (elim passes_cases) (use inst5 in blast)
  note inst6 = writer_rolls_back [where env = "rejecting_env 6" and data = article_data and w = "start forum"]
  from rejected_6 have f6: "fst (insertMessage (rejecting_env 6) article_data (start forum)) = Some CommunityActivityInsertFailed"
    by (elim passes_cases) (use inst6 in blast)
  note inst7 = writer_rolls_back [where env = "rejecting_env 7" and data = article_data and w = "start forum"]
  from rejected_7 have f7: "fst (insertMessage (rejecting_env 7) article_data (start forum)) = Some CommunityActivityLikeIdUpdateFailed"
    by (elim passes_cases) (use inst7 in blast)
  note inst8 = writer_rolls_back [where env = "demo_env False" and data = article_data and w = "start forum"]
  from all_seven_pass have f8: "fst (insertMessage (demo_env False) article_data (start forum)) = None"
    by (elim passes_cases) (use inst8 in blast)
  have s2: "step (demo_env False)
      (InsertMessageText (insertId \<lparr>affectedRows = 1, insertId = 1\<rparr>) (message article_data))
      MessageTextInsertFailed (inside with_message [Info_QuerySuccessful])
      = Inr (\<lparr>affectedRows = 1, insertId = 0\<rparr>,
             inside with_message_text [Info_QuerySuccessful, Info_QuerySuccessful])"
    using writer_steps_without_user(2) by simp
  have s3: "statement_fails (demo_env False) (UpdateUserPosts (userId article_data))
      (inside with_message_text [Info_QuerySuccessful, Info_QuerySuccessful])"
    by (simp add: statement_fails_def writer_steps_without_user(3))
  from writer_rolls_back
    [where env = "demo_env False" and data = article_data and w = "start forum_without_user"
      and ?res1.0 = "\<lparr>affectedRows = 1, insertId = 1\<rparr>"
      and ?w1.0 = "inside with_message [Info_QuerySuccessful]"
      and ?res2.0 = "\<lparr>affectedRows = 1, insertId = 0\<rparr>"
      and ?w2.0 = "inside with_message_text [Info_QuerySuccessful, Info_QuerySuccessful]"]
    writer_steps_without_user(1) s2 s3
  have f9: "fst (insertMessage (demo_env False) article_data (start forum_without_user))
      = Some UserPostCountUpdateFailed"
    by blast
  have opened: "transaction (inside with_message_text [Info_QuerySuccessful, Info_QuerySuccessful])
      = Some with_message_text"
    by (simp add: inside_def)
  from f1 f2 f3 f4 f5 f6 f7 f8 f9 rolled [OF f1] rolled [OF f2] rolled [OF f3] rolled [OF f4] rolled [OF f5]
    rolled [OF f6] rolled [OF f7] rolled [OF f9] opened writer_steps_without_user(4,5)
  show ?thesis
    by simp
qed


end
